(* ===== verification/RL_Prelude.thy ===== *)
theory RL_Prelude imports Main "HOL-Library.Word" "HOL-Library.Option_ord" "HOL-Library.Product_Lexorder"
begin

text \<open>
  What every component of the model shares: the machine integers, the result of a Rust
  call, the decimal printing of integers, and the generic lemmas and fact collections that
  carry the component proofs.

  A Rust function that returns \<open>Result<A, E>\<close> may also panic (an \<open>unwrap\<close> of \<open>None\<close>, a
  \<open>panic!\<close>, a range whose start is past its end). Both are values here: \<open>Ok\<close> and \<open>Err\<close>
  are the two results and \<open>Panic\<close> is the abort, so that "never panics" is a theorem.
  \<open>Option\<close> values are compared by HOL-Library.Option_ord, which is the order Rust
  derives (\<open>None\<close> below every \<open>Some\<close>); pairs by HOL-Library.Product_Lexorder, the order
  Rust derives for tuples.
\<close>

section \<open>Machine integers\<close>

type_synonym u64 = "64 word"
type_synonym u32 = "32 word"
type_synonym u8 = "8 word"

text \<open>\<open>usize\<close> is 64 bits wide on the platforms the program runs on.\<close>

type_synonym usize = "64 word"

named_theorems outcome_simps "unfolding rules for results"
named_theorems record_simps "unfolding rules for the state records"

section \<open>Results\<close>

datatype ('a, 'e) outcome = Ok 'a | Err 'e | Panic

text \<open>\<open>and_then\<close> is the \<open>?\<close> operator: an error or an abort skips the rest.\<close>

fun and_then :: "('a, 'e) outcome \<Rightarrow> ('a \<Rightarrow> ('b, 'e) outcome) \<Rightarrow> ('b, 'e) outcome" where
  "and_then (Ok a) f = f a"
| "and_then (Err e) f = Err e"
| "and_then Panic f = Panic"

text \<open>\<open>map_err\<close> is the \<open>From\<close> conversion that \<open>?\<close> applies to the error.\<close>

fun map_err :: "('e \<Rightarrow> 'f) \<Rightarrow> ('a, 'e) outcome \<Rightarrow> ('a, 'f) outcome" where
  "map_err f (Ok a) = Ok a"
| "map_err f (Err e) = Err (f e)"
| "map_err f Panic = Panic"

definition is_ok :: "('a, 'e) outcome \<Rightarrow> bool" where
  "is_ok r = (case r of Ok _ \<Rightarrow> True | _ \<Rightarrow> False)"

lemma is_ok_simps [simp, outcome_simps]:
  "is_ok (Ok a)" "\<not> is_ok (Err e)" "\<not> is_ok Panic"
  by (simp_all add: is_ok_def)

lemma is_ok_conv: "is_ok r \<longleftrightarrow> (\<exists>a. r = Ok a)"
  by (cases r) auto

lemma is_ok_map_err [simp]: "is_ok (map_err f r) = is_ok r"
  by (cases r) auto

lemma map_err_eq_iff [simp]:
  "map_err f r = Ok a \<longleftrightarrow> r = Ok a"
  "map_err f r = Panic \<longleftrightarrow> r = Panic"
  "map_err f r = Err e \<longleftrightarrow> (\<exists>e'. r = Err e' \<and> e = f e')"
  by (cases r; auto)+

lemma and_then_eq_Ok:
  "and_then r f = Ok b \<longleftrightarrow> (\<exists>a. r = Ok a \<and> f a = Ok b)"
  by (cases r) auto

lemma and_then_eq_Panic:
  "and_then r f = Panic \<longleftrightarrow> r = Panic \<or> (\<exists>a. r = Ok a \<and> f a = Panic)"
  by (cases r) auto

text \<open>\<open>collect::<Result<Vec<_>, _>>()\<close>: the first error, or all items.\<close>

fun collect_results :: "('a, 'e) outcome list \<Rightarrow> ('a list, 'e) outcome" where
  "collect_results [] = Ok []"
| "collect_results (r # rs) =
     and_then r (\<lambda>a. and_then (collect_results rs) (\<lambda>as. Ok (a # as)))"

lemma collect_map_Ok [simp]: "collect_results (map Ok xs) = Ok xs"
  by (induction xs) simp_all

lemma is_ok_and_then: "is_ok (and_then r f) \<longleftrightarrow> (\<exists>a. r = Ok a \<and> is_ok (f a))"
  by (cases r) (simp_all add: is_ok_def)

lemma is_ok_collect: "is_ok (collect_results rs) \<longleftrightarrow> (\<forall>r \<in> set rs. is_ok r)"
  by (induction rs) (auto simp: is_ok_and_then is_ok_def split: outcome.splits)

lemma unit_outcome_cases:
  fixes r :: "(unit, 'e) outcome"
  obtains "r = Ok ()" | e where "r = Err e" | "r = Panic"
  by (cases r) auto

section \<open>Options\<close>

lemma Some_le_iff: "Some a \<le> x \<longleftrightarrow> (\<exists>b. x = Some b \<and> a \<le> b)" for a :: "'a::preorder"
  by (cases x) auto

lemma Some_less_iff: "Some a < x \<longleftrightarrow> (\<exists>b. x = Some b \<and> a < b)" for a :: "'a::preorder"
  by (cases x) auto

lemma less_Some_iff: "x < Some b \<longleftrightarrow> (\<forall>a. x = Some a \<longrightarrow> a < b)" for b :: "'a::preorder"
  by (cases x) auto

section \<open>Runs of a step function\<close>

text \<open>
  A component is run by folding its step over a list of inputs. \<open>along\<close> says that a side
  condition holds at every step of such a run. The locale is the contract of an inductive
  invariant together with a relation that every step respects; its instances are the log
  state, the payload cache and the state machine.
\<close>

fun along :: "('s \<Rightarrow> 'i \<Rightarrow> 's) \<Rightarrow> ('s \<Rightarrow> 'i \<Rightarrow> bool) \<Rightarrow> 's \<Rightarrow> 'i list \<Rightarrow> bool" where
  "along step allowed s [] = True"
| "along step allowed s (i # is) = (allowed s i \<and> along step allowed (step s i) is)"

lemma along_True [simp]: "along step (\<lambda>_ _. True) s is"
  by (induction "is" arbitrary: s) auto

lemma along_inputs: "(\<And>i. i \<in> set is \<Longrightarrow> P i) \<Longrightarrow> along step (\<lambda>_. P) s is"
  by (induction "is" arbitrary: s) auto

locale progress_machine =
  fixes step :: "'s \<Rightarrow> 'i \<Rightarrow> 's"
    and allowed :: "'s \<Rightarrow> 'i \<Rightarrow> bool"
    and inv :: "'s \<Rightarrow> bool"
    and grows :: "'s \<Rightarrow> 's \<Rightarrow> bool"
  assumes step_inv: "inv s \<Longrightarrow> allowed s i \<Longrightarrow> inv (step s i)"
    and step_grows: "inv s \<Longrightarrow> allowed s i \<Longrightarrow> grows s (step s i)"
    and grows_refl: "grows s s"
    and grows_trans: "grows s t \<Longrightarrow> grows t u \<Longrightarrow> grows s u"
begin

lemma run_inv: "inv s \<Longrightarrow> along step allowed s is \<Longrightarrow> inv (foldl step s is)"
  by (induction "is" arbitrary: s) (auto intro: step_inv)

lemma run_grows:
  "inv s \<Longrightarrow> along step allowed s is \<Longrightarrow> grows s (foldl step s is)"
proof (induction "is" arbitrary: s)
  case (Cons i "is")
  then have "grows (step s i) (foldl step (step s i) is)"
    by (simp add: step_inv)
  with Cons.prems show ?case
    by (auto intro: grows_trans step_grows)
qed (simp add: grows_refl)

end

section \<open>Words\<close>

text \<open>The largest value of a word is \<open>- 1\<close>; below it, adding one does not wrap.\<close>

lemma unat_Suc_word: "w \<noteq> - 1 \<Longrightarrow> unat (w + 1) = Suc (unat w)" for w :: "'n::len word"
  by (metis add.commute add_eq_0_iff unatSuc)

lemma less_add_one_iff:
  "(v :: 'n::len word) < w + 1 \<longleftrightarrow> v \<le> w" if "w \<noteq> - 1"
  using that by (simp add: word_less_nat_alt word_le_nat_alt unat_Suc_word less_Suc_eq_le)

lemma add_one_le_iff:
  "(w :: 'n::len word) + 1 \<le> v \<longleftrightarrow> w < v" if "w \<noteq> - 1"
  using that by (simp add: word_less_nat_alt word_le_nat_alt unat_Suc_word Suc_le_eq)

lemma add_one_mono:
  fixes v w :: "'n::len word"
  assumes "v \<le> w" and "w \<noteq> - 1"
  shows "v + 1 \<le> w + 1"
proof -
  have "v \<noteq> - 1" using assms word_order.extremum_uniqueI by blast
  with assms show ?thesis by (simp add: word_le_nat_alt unat_Suc_word)
qed

section \<open>Decimal printing\<close>

definition digit_char :: "nat \<Rightarrow> char" where
  "digit_char d = ''0123456789'' ! d"

fun dec_string :: "nat \<Rightarrow> string" where
  "dec_string n =
     (if n < 10 then [digit_char n] else dec_string (n div 10) @ [digit_char (n mod 10)])"

declare dec_string.simps [simp del]

definition show_u64 :: "u64 \<Rightarrow> string" where
  "show_u64 w = dec_string (unat w)"

text \<open>Reading a decimal string back, for the round trips.\<close>

definition digit_val :: "char \<Rightarrow> nat" where
  "digit_val c = (of_char c :: nat) - 48"

definition parse_dec :: "string \<Rightarrow> nat" where
  "parse_dec s = foldl (\<lambda>n c. 10 * n + digit_val c) 0 s"

definition is_digit :: "char \<Rightarrow> bool" where
  "is_digit c \<longleftrightarrow> c \<in> set ''0123456789''"

lemma less_10_cases:
  "(d::nat) < 10 \<longleftrightarrow> d \<in> {0, 1, 2, 3, 4, 5, 6, 7, 8, 9}"
  by (simp, arith)

lemma digit_val_char [simp]: "d < 10 \<Longrightarrow> digit_val (digit_char d) = d"
  by (auto simp: less_10_cases digit_val_def digit_char_def)

lemma is_digit_char [simp]: "d < 10 \<Longrightarrow> is_digit (digit_char d)"
  by (auto simp: less_10_cases is_digit_def digit_char_def)

lemma parse_dec_snoc [simp]: "parse_dec (s @ [c]) = 10 * parse_dec s + digit_val c"
  by (simp add: parse_dec_def)

lemma parse_dec_zero [simp]: "parse_dec (CHR ''0'' # s) = parse_dec s"
  by (simp add: parse_dec_def digit_val_def)

lemma parse_dec_string [simp]: "parse_dec (dec_string n) = n"
proof (induction n rule: dec_string.induct)
  case (1 n)
  show ?case
  proof (cases "n < 10")
    case True
    then have "dec_string n = [] @ [digit_char n]"
      by (simp add: dec_string.simps [of n])
    with True show ?thesis
      by (simp only: parse_dec_snoc) (simp add: parse_dec_def)
  next
    case False
    with 1 show ?thesis by (simp add: dec_string.simps [of n])
  qed
qed

lemma dec_string_digits: "\<forall>c \<in> set (dec_string n). is_digit c"
proof (induction n rule: dec_string.induct)
  case (1 n)
  then show ?case by (cases "n < 10") (simp_all add: dec_string.simps [of n])
qed

lemma dec_string_nonempty [simp]: "dec_string n \<noteq> []"
  by (subst dec_string.simps) simp

lemma dec_string_inject: "dec_string m = dec_string n \<longleftrightarrow> m = n"
  by (metis parse_dec_string)

end
