(* ===== verification/Raft_Types.thy ===== *)
theory Raft_Types imports RL_Prelude
begin

text \<open>
  \<open>src/api/types.rs\<close>: the \<open>Types\<close> trait that parameterizes the whole crate, as a
  dictionary record passed to every definition that calls one of its methods, and the
  instance \<open>TestTypes\<close> of \<open>src/testing.rs\<close>, on which the witnesses are evaluated.

  \<open>LogId: Ord\<close> is a type variable of class \<open>linorder\<close>, \<open>Vote: PartialOrd + Eq\<close> one of
  class \<open>order\<close>; \<open>LogPayload\<close> and \<open>UserData\<close> are plain type variables. The \<open>Debug\<close>
  implementations of the log id and of the vote are fields of the dictionary because the
  error messages print them. The \<open>Codec\<close> bounds belong to the theory \<open>Codec\<close>.
\<close>

record ('l, 'p, 'v) raft_types =
  log_index :: "'l \<Rightarrow> u64"
  payload_size :: "'p \<Rightarrow> u64"
  dbg_log_id :: "'l \<Rightarrow> string"
  dbg_vote :: "'v \<Rightarrow> string"

text \<open>
  \<open>log_index(log_id) + 1\<close> is \<open>u64\<close> arithmetic: a release build wraps at
  \<open>u64::MAX\<close>, which is what \<open>+\<close> on words does.
\<close>

definition next_log_index :: "('l, 'p, 'v) raft_types \<Rightarrow> 'l option \<Rightarrow> u64" where
  "next_log_index T log_id =
     (case log_id of
        Some l \<Rightarrow> log_index T l + 1
      | None \<Rightarrow> 0)"

lemma next_log_index_simps [simp]:
  "next_log_index T None = 0"
  "next_log_index T (Some l) = log_index T l + 1"
  by (simp_all add: next_log_index_def)

text \<open>
  An index below \<open>u64::MAX\<close> has a successor. The theorems about the log map assume it of
  the log ids they handle; \<open>indexed\<close> lifts it to an optional log id.
\<close>

definition has_next :: "('l, 'p, 'v) raft_types \<Rightarrow> 'l option \<Rightarrow> bool" where
  "has_next T log_id = (case log_id of Some l \<Rightarrow> log_index T l \<noteq> - 1 | None \<Rightarrow> True)"

lemma has_next_simps [simp]:
  "has_next T None"
  "has_next T (Some l) \<longleftrightarrow> log_index T l \<noteq> - 1"
  by (simp_all add: has_next_def)

lemma next_log_index_nonzero: "log_index T l \<noteq> - 1 \<Longrightarrow> next_log_index T (Some l) \<noteq> 0"
  by (simp add: eq_neg_iff_add_eq_0)

section \<open>The test instance\<close>

type_synonym test_id = "u64 \<times> u64"

definition dbg_pair :: "u64 \<times> u64 \<Rightarrow> string" where
  "dbg_pair p = ''('' @ show_u64 (fst p) @ '', '' @ show_u64 (snd p) @ '')''"

definition test_types :: "(test_id, string, u64 \<times> u64) raft_types" where
  "test_types =
     \<lparr>log_index = snd, payload_size = (\<lambda>s. of_nat (length s)),
      dbg_log_id = dbg_pair, dbg_vote = dbg_pair\<rparr>"

lemma test_types_simps [simp]:
  "log_index test_types = snd"
  "payload_size test_types = (\<lambda>s. of_nat (length s))"
  "dbg_log_id test_types = dbg_pair"
  "dbg_vote test_types = dbg_pair"
  by (simp_all add: test_types_def)

end
