(* ===== verification/Raft_Errors.thy ===== *)
theory Raft_Errors imports Raft_Types
begin

text \<open>
  \<open>src/errors.rs\<close>: the reasons for which a record is rejected, their messages, and the
  conversion of such a rejection to \<open>std::io::Error\<close>, which is what the write API returns.
  One constructor of \<open>state_error\<close> per variant of \<open>RaftLogStateError\<close>, with the fields of
  the struct the variant wraps, in their order.
\<close>

section \<open>The errors\<close>

datatype ('l, 'v) state_error =
    VoteReversal (err_current_vote: 'v) (err_attempted_vote: 'v)
  | LogIdReversal (err_current: 'l) (err_attempted: 'l) (err_when: string)
  | LogIdNonConsecutive (err_last: "'l option") (err_appended: 'l)
  | CommitBeyondLast (err_log_last: "'l option") (err_commit: 'l)
  | TruncateCommitted (err_committed: 'l) (err_keep_upto: "'l option")
  | CheckpointLogMismatch (err_first_held: 'l) (err_last_held: 'l)
      (err_purged: "'l option") (err_declared_last: "'l option")
  | LogIndexNotFound (err_index: u64)

section \<open>Their messages\<close>

text \<open>\<open>{:?}\<close> of an option.\<close>

definition dbg_option :: "('a \<Rightarrow> string) \<Rightarrow> 'a option \<Rightarrow> string" where
  "dbg_option dbg x = (case x of None \<Rightarrow> ''None'' | Some a \<Rightarrow> ''Some('' @ dbg a @ '')'')"

definition vote_reversal_msg :: "('l, 'p, 'v) raft_types \<Rightarrow> 'v \<Rightarrow> 'v \<Rightarrow> string" where
  "vote_reversal_msg T current attempted =
     ''Vote cannot be reversed: current '' @ dbg_vote T current
     @ '', attempted '' @ dbg_vote T attempted"

definition log_id_reversal_msg ::
  "('l, 'p, 'v) raft_types \<Rightarrow> 'l \<Rightarrow> 'l \<Rightarrow> string \<Rightarrow> string" where
  "log_id_reversal_msg T current attempted when_op =
     ''Log id cannot be reversed when '' @ when_op @ '': current '' @ dbg_log_id T current
     @ '', attempted '' @ dbg_log_id T attempted"

definition non_consecutive_msg ::
  "('l, 'p, 'v) raft_types \<Rightarrow> 'l option \<Rightarrow> 'l \<Rightarrow> string" where
  "non_consecutive_msg T last_id attempted =
     ''Log id is not consecutive when append: last '' @ dbg_option (dbg_log_id T) last_id
     @ '', attempted '' @ dbg_log_id T attempted"

definition commit_beyond_last_msg ::
  "('l, 'p, 'v) raft_types \<Rightarrow> 'l option \<Rightarrow> 'l \<Rightarrow> string" where
  "commit_beyond_last_msg T last_id attempted =
     ''Log id is beyond the last log id when commit: last ''
     @ dbg_option (dbg_log_id T) last_id @ '', attempted '' @ dbg_log_id T attempted"

definition truncate_committed_msg ::
  "('l, 'p, 'v) raft_types \<Rightarrow> 'l \<Rightarrow> 'l option \<Rightarrow> string" where
  "truncate_committed_msg T committed keep_upto =
     ''Truncation would remove committed logs: committed '' @ dbg_log_id T committed
     @ '', attempted to keep upto '' @ dbg_option (dbg_log_id T) keep_upto"

definition checkpoint_mismatch_msg ::
  "('l, 'p, 'v) raft_types \<Rightarrow> 'l \<Rightarrow> 'l \<Rightarrow> 'l option \<Rightarrow> 'l option \<Rightarrow> string" where
  "checkpoint_mismatch_msg T first_id last_id purged declared =
     ''Checkpoint does not match the stored log: the log holds '' @ dbg_log_id T first_id
     @ ''..='' @ dbg_log_id T last_id @ '', the checkpoint declares purged ''
     @ dbg_option (dbg_log_id T) purged @ '' and last '' @ dbg_option (dbg_log_id T) declared"

definition index_not_found_msg :: "u64 \<Rightarrow> string" where
  "index_not_found_msg i = ''Log not found at index '' @ show_u64 i"

fun state_error_msg :: "('l, 'p, 'v) raft_types \<Rightarrow> ('l, 'v) state_error \<Rightarrow> string" where
  "state_error_msg T (VoteReversal c a) = vote_reversal_msg T c a"
| "state_error_msg T (LogIdReversal c a w) = log_id_reversal_msg T c a w"
| "state_error_msg T (LogIdNonConsecutive l a) = non_consecutive_msg T l a"
| "state_error_msg T (CommitBeyondLast l a) = commit_beyond_last_msg T l a"
| "state_error_msg T (TruncateCommitted c k) = truncate_committed_msg T c k"
| "state_error_msg T (CheckpointLogMismatch f l p d) = checkpoint_mismatch_msg T f l p d"
| "state_error_msg T (LogIndexNotFound i) = index_not_found_msg i"

section \<open>The conversion to an IO error\<close>

datatype io_kind = InvalidInput | InvalidData | UnexpectedEof | WouldBlock | OtherKind

datatype io_error = IoError (err_kind: io_kind) (err_msg: string)

definition io_of_state_error ::
  "('l, 'p, 'v) raft_types \<Rightarrow> ('l, 'v) state_error \<Rightarrow> io_error" where
  "io_of_state_error T e = IoError InvalidInput (state_error_msg T e)"

lemma io_of_state_error_kind [simp]: "err_kind (io_of_state_error T e) = InvalidInput"
  by (simp add: io_of_state_error_def)

end
