(* ===== verification/Raft_State.thy ===== *)
theory Raft_State imports Raft_Errors
begin

text \<open>
  \<open>src/raft_log/raft_log_action.rs\<close> (the five actions), \<open>src/raft_log/raft_log_record.rs\<close>
  (a WAL record is an action or a checkpoint) and
  \<open>src/raft_log/state_machine/raft_log_state.rs\<close> (\<open>RaftLogState\<close>: vote, last, committed,
  purged, user data; the checks that accept or reject a record and the effect of an
  accepted one).

  The comparisons are those of \<open>Option<&LogId>\<close>. An \<open>unwrap\<close> in the source is a case
  distinction whose \<open>None\<close> branch is \<open>Panic\<close>; the lemmas show that it is never taken.
\<close>

section \<open>Actions, records and the state\<close>

datatype ('l, 'p, 'v) raft_action =
    SaveVote 'v
  | Append 'l 'p
  | Commit 'l
  | TruncateAfter "'l option"
  | PurgeUpto 'l

record ('l, 'v, 'u) raft_log_state =
  st_vote :: "'v option"
  st_last :: "'l option"
  st_committed :: "'l option"
  st_purged :: "'l option"
  st_user_data :: "'u option"

datatype ('l, 'p, 'v, 'u) raft_record =
    Action "('l, 'p, 'v) raft_action"
  | Checkpoint "('l, 'v, 'u) raft_log_state"

definition default_state :: "('l, 'v, 'u) raft_log_state" where
  "default_state =
     \<lparr>st_vote = None, st_last = None, st_committed = None, st_purged = None,
      st_user_data = None\<rparr>"

section \<open>The checks\<close>

definition check_vote ::
  "('l, 'v::order, 'u) raft_log_state \<Rightarrow> 'v \<Rightarrow> (unit, ('l, 'v) state_error) outcome" where
  "check_vote s vote =
     (if st_vote s \<le> Some vote then Ok ()
      else (case st_vote s of
              None \<Rightarrow> Panic
            | Some current \<Rightarrow> Err (VoteReversal current vote)))"

definition check_append ::
  "('l::linorder, 'p, 'v) raft_types \<Rightarrow> ('l, 'v, 'u) raft_log_state \<Rightarrow> 'l
     \<Rightarrow> (unit, ('l, 'v) state_error) outcome" where
  "check_append T s log_id =
     (if Some log_id \<le> st_last s then
        (case st_last s of
           None \<Rightarrow> Panic
         | Some current \<Rightarrow> Err (LogIdReversal current log_id ''append''))
      else if st_last s = None then Ok ()
      else if next_log_index T (st_last s) \<noteq> log_index T log_id then
        Err (LogIdNonConsecutive (st_last s) log_id)
      else Ok ())"

definition check_commit ::
  "('l::linorder, 'v, 'u) raft_log_state \<Rightarrow> 'l \<Rightarrow> (unit, ('l, 'v) state_error) outcome" where
  "check_commit s log_id =
     (if Some log_id < st_committed s then
        (case st_committed s of
           None \<Rightarrow> Panic
         | Some current \<Rightarrow> Err (LogIdReversal current log_id ''commit''))
      else if st_last s < Some log_id then Err (CommitBeyondLast (st_last s) log_id)
      else Ok ())"

definition check_truncate ::
  "('l::linorder, 'v, 'u) raft_log_state \<Rightarrow> 'l option
     \<Rightarrow> (unit, ('l, 'v) state_error) outcome" where
  "check_truncate s keep =
     (if st_committed s \<le> keep then Ok ()
      else (case st_committed s of
              None \<Rightarrow> Panic
            | Some committed \<Rightarrow> Err (TruncateCommitted committed keep)))"

fun state_check ::
  "('l::linorder, 'p, 'v::order) raft_types \<Rightarrow> ('l, 'v, 'u) raft_log_state
     \<Rightarrow> ('l, 'p, 'v, 'u) raft_record \<Rightarrow> (unit, ('l, 'v) state_error) outcome" where
  "state_check T s (Action (SaveVote vote)) = check_vote s vote"
| "state_check T s (Action (Append log_id payload)) = check_append T s log_id"
| "state_check T s (Action (Commit log_id)) = check_commit s log_id"
| "state_check T s (Action (TruncateAfter log_id)) = check_truncate s log_id"
| "state_check T s (Action (PurgeUpto log_id)) = Ok ()"
| "state_check T s (Checkpoint st) = Ok ()"

section \<open>The effects\<close>

definition state_truncate_after ::
  "('l::linorder, 'v, 'u) raft_log_state \<Rightarrow> 'l option \<Rightarrow> ('l, 'v, 'u) raft_log_state" where
  "state_truncate_after s log_id =
     (if log_id < st_last s then s\<lparr>st_last := log_id\<rparr> else s)"

definition state_purge ::
  "('l::linorder, 'v, 'u) raft_log_state \<Rightarrow> 'l \<Rightarrow> ('l, 'v, 'u) raft_log_state" where
  "state_purge s log_id =
     (let purged = Some log_id;
          s1 = (if st_purged s < purged then s\<lparr>st_purged := purged\<rparr> else s)
      in if st_last s1 < purged then s1\<lparr>st_last := purged\<rparr> else s1)"

text \<open>The assignment an accepted record makes.\<close>

fun state_effect ::
  "('l::linorder, 'v, 'u) raft_log_state \<Rightarrow> ('l, 'p, 'v, 'u) raft_record
     \<Rightarrow> ('l, 'v, 'u) raft_log_state" where
  "state_effect s (Action (SaveVote vote)) = s\<lparr>st_vote := Some vote\<rparr>"
| "state_effect s (Action (Append log_id payload)) = s\<lparr>st_last := Some log_id\<rparr>"
| "state_effect s (Action (Commit log_id)) = s\<lparr>st_committed := Some log_id\<rparr>"
| "state_effect s (Action (TruncateAfter log_id)) = state_truncate_after s log_id"
| "state_effect s (Action (PurgeUpto log_id)) = state_purge s log_id"
| "state_effect s (Checkpoint st) = st"

definition state_apply ::
  "('l::linorder, 'p, 'v::order) raft_types \<Rightarrow> ('l, 'v, 'u) raft_log_state
     \<Rightarrow> ('l, 'p, 'v, 'u) raft_record
     \<Rightarrow> (unit, ('l, 'v) state_error) outcome \<times> ('l, 'v, 'u) raft_log_state" where
  "state_apply T s rec =
     (case state_check T s rec of
        Ok _ \<Rightarrow> (Ok (), state_effect s rec)
      | Err e \<Rightarrow> (Err e, s)
      | Panic \<Rightarrow> (Panic, s))"

section \<open>Facts about single records\<close>

lemma check_vote_Ok: "check_vote s vote = Ok () \<longleftrightarrow> st_vote s \<le> Some vote"
  by (simp add: check_vote_def split: option.splits)

lemma check_append_Ok:
  "check_append T s log_id = Ok () \<longleftrightarrow>
     st_last s < Some log_id \<and>
     (\<forall>l. st_last s = Some l \<longrightarrow> log_index T log_id = log_index T l + 1)"
  by (auto simp: check_append_def not_le split: option.splits)

lemma check_commit_Ok:
  "check_commit s log_id = Ok () \<longleftrightarrow> st_committed s \<le> Some log_id \<and> Some log_id \<le> st_last s"
  by (auto simp: check_commit_def not_less not_le split: option.splits)

lemma check_truncate_Ok: "check_truncate s keep = Ok () \<longleftrightarrow> st_committed s \<le> keep"
  by (simp add: check_truncate_def split: option.splits)

lemmas check_Ok_iff = check_vote_Ok check_append_Ok check_commit_Ok check_truncate_Ok

lemma state_check_not_Panic: "state_check T s rec \<noteq> Panic"
proof (cases rec)
  case (Action a)
  then show ?thesis
    by (cases a) (auto simp: check_vote_def check_append_def check_commit_def
        check_truncate_def split: option.splits)
qed simp

lemma state_apply_cases:
  obtains "state_check T s rec = Ok ()" and "state_apply T s rec = (Ok (), state_effect s rec)"
  | e where "state_check T s rec = Err e" and "state_apply T s rec = (Err e, s)"
  using state_check_not_Panic [of T s rec]
  by (cases "state_check T s rec") (auto simp: state_apply_def)

lemma state_apply_Ok:
  "state_check T s rec = Ok () \<Longrightarrow> state_apply T s rec = (Ok (), state_effect s rec)"
  by (simp add: state_apply_def)

lemma state_apply_Err:
  "state_check T s rec = Err e \<Longrightarrow> state_apply T s rec = (Err e, s)"
  by (simp add: state_apply_def)

lemma state_apply_fst: "fst (state_apply T s rec) = state_check T s rec"
  by (cases rule: state_apply_cases [of T s rec]) auto

text \<open>Truncation lowers \<open>last\<close> to a minimum, purging raises two fields to maxima.\<close>

lemma state_truncate_fields [simp]:
  "st_last (state_truncate_after s keep) = min (st_last s) keep"
  "st_vote (state_truncate_after s keep) = st_vote s"
  "st_committed (state_truncate_after s keep) = st_committed s"
  "st_purged (state_truncate_after s keep) = st_purged s"
  "st_user_data (state_truncate_after s keep) = st_user_data s"
  by (auto simp: state_truncate_after_def min_def)

lemma state_purge_fields [simp]:
  "st_last (state_purge s l) = max (st_last s) (Some l)"
  "st_purged (state_purge s l) = max (st_purged s) (Some l)"
  "st_vote (state_purge s l) = st_vote s"
  "st_committed (state_purge s l) = st_committed s"
  "st_user_data (state_purge s l) = st_user_data s"
  by (auto simp: state_purge_def Let_def max_def)

section \<open>Runs of actions\<close>

text \<open>
  The order in which a log state may evolve: neither the vote nor the commit and purge
  positions go back. The invariant is that the commit position is within the log.
\<close>

definition state_step ::
  "('l::linorder, 'p, 'v::order) raft_types \<Rightarrow> ('l, 'v, 'u) raft_log_state
     \<Rightarrow> ('l, 'p, 'v, 'u) raft_record \<Rightarrow> ('l, 'v, 'u) raft_log_state" where
  "state_step T s rec = snd (state_apply T s rec)"

definition is_action :: "('l, 'p, 'v, 'u) raft_record \<Rightarrow> bool" where
  "is_action rec = (case rec of Action _ \<Rightarrow> True | Checkpoint _ \<Rightarrow> False)"

definition committed_in_log :: "('l::linorder, 'v, 'u) raft_log_state \<Rightarrow> bool" where
  "committed_in_log s \<longleftrightarrow> st_committed s \<le> st_last s"

definition state_grows ::
  "('l::linorder, 'v::order, 'u) raft_log_state \<Rightarrow> ('l, 'v, 'u) raft_log_state \<Rightarrow> bool" where
  "state_grows s t \<longleftrightarrow>
     st_vote s \<le> st_vote t \<and> st_committed s \<le> st_committed t \<and> st_purged s \<le> st_purged t"

lemma state_effect_committed:
  assumes "committed_in_log s" and "is_action rec" and "state_check T s rec = Ok ()"
  shows "committed_in_log (state_effect s rec) \<and> state_grows s (state_effect s rec)"
proof -
  from assms(2) obtain a where rec: "rec = Action a"
    by (auto simp: is_action_def split: raft_record.splits)
  show ?thesis
  proof (cases a)
    case (Append l p)
    with assms rec show ?thesis
      by (auto simp: committed_in_log_def state_grows_def check_Ok_iff)
  qed (use assms rec in \<open>auto simp: committed_in_log_def state_grows_def check_Ok_iff
      le_max_iff_disj\<close>)
qed

interpretation st: progress_machine "state_step T" "\<lambda>_. is_action" committed_in_log state_grows
  for T :: "('l::linorder, 'p, 'v::order) raft_types"
proof
  fix s :: "('l, 'v, 'u) raft_log_state" and i :: "('l, 'p, 'v, 'u) raft_record"
  assume inv: "committed_in_log s" and act: "is_action i"
  show "committed_in_log (state_step T s i)" "state_grows s (state_step T s i)"
    using state_effect_committed [OF inv act]
    by (cases rule: state_apply_cases [of T s i];
        simp add: state_step_def inv state_grows_def)+
qed (auto simp: state_grows_def intro: order_trans)

end
