(* ===== verification/Ordered_Map.thy ===== *)
theory Ordered_Map imports RL_Prelude
begin

text \<open>
  The standard library's \<open>BTreeMap\<close>, as far as the program uses it: the log map of the
  state machine (\<open>BTreeMap<u64, LogData>\<close>) and the payload cache
  (\<open>BTreeMap<LogId, LogPayload>\<close>). A map is its entry list in key order, \<open>bt_wf\<close> says that the
  keys ascend strictly, and \<open>bt_get\<close> is the abstraction to a partial function.

  The locale \<open>ordered_map\<close> is the interface both clients rely on; its interpretation
  \<open>bt\<close> discharges it for the entry lists.
\<close>

section \<open>The model of the map\<close>

type_synonym ('k, 'v) btree_map = "('k \<times> 'v) list"

definition bt_wf :: "('k::linorder, 'v) btree_map \<Rightarrow> bool" where
  "bt_wf m \<longleftrightarrow> sorted_wrt (<) (map fst m)"

definition bt_get :: "('k, 'v) btree_map \<Rightarrow> 'k \<Rightarrow> 'v option" where
  "bt_get m k = map_of m k"

text \<open>\<open>insert\<close> replaces the value of a key that is present.\<close>

fun bt_insert :: "'k::linorder \<Rightarrow> 'v \<Rightarrow> ('k, 'v) btree_map \<Rightarrow> ('k, 'v) btree_map" where
  "bt_insert k v [] = [(k, v)]"
| "bt_insert k v (e # m) =
     (if fst e < k then e # bt_insert k v m
      else if fst e = k then (k, v) # m
      else (k, v) # e # m)"

text \<open>\<open>split_off(&k)\<close> leaves the keys below \<open>k\<close> in the map and returns the others.\<close>

definition bt_below :: "'k::linorder \<Rightarrow> ('k, 'v) btree_map \<Rightarrow> ('k, 'v) btree_map" where
  "bt_below k m = filter (\<lambda>e. fst e < k) m"

definition bt_from :: "'k::linorder \<Rightarrow> ('k, 'v) btree_map \<Rightarrow> ('k, 'v) btree_map" where
  "bt_from k m = filter (\<lambda>e. k \<le> fst e) m"

definition bt_split_off ::
  "'k::linorder \<Rightarrow> ('k, 'v) btree_map \<Rightarrow> ('k, 'v) btree_map \<times> ('k, 'v) btree_map" where
  "bt_split_off k m = (bt_below k m, bt_from k m)"

definition bt_first :: "('k, 'v) btree_map \<Rightarrow> ('k \<times> 'v) option" where
  "bt_first m = (case m of [] \<Rightarrow> None | e # _ \<Rightarrow> Some e)"

definition bt_last :: "('k, 'v) btree_map \<Rightarrow> ('k \<times> 'v) option" where
  "bt_last m = (if m = [] then None else Some (last m))"

definition bt_pop_first ::
  "('k, 'v) btree_map \<Rightarrow> (('k \<times> 'v) \<times> ('k, 'v) btree_map) option" where
  "bt_pop_first m = (case m of [] \<Rightarrow> None | e # m' \<Rightarrow> Some (e, m'))"

definition bt_pop_last ::
  "('k, 'v) btree_map \<Rightarrow> (('k \<times> 'v) \<times> ('k, 'v) btree_map) option" where
  "bt_pop_last m = (if m = [] then None else Some (last m, butlast m))"

text \<open>\<open>range(lo..hi)\<close> panics when the start is past the end.\<close>

definition bt_range ::
  "'k::linorder \<Rightarrow> 'k \<Rightarrow> ('k, 'v) btree_map \<Rightarrow> (('k \<times> 'v) list, 'e) outcome" where
  "bt_range lo hi m =
     (if hi < lo then Panic else Ok (filter (\<lambda>e. lo \<le> fst e \<and> fst e < hi) m))"

section \<open>The interface\<close>

locale ordered_map =
  fixes get :: "'m \<Rightarrow> 'k::linorder \<Rightarrow> 'v option"
    and ins :: "'k \<Rightarrow> 'v \<Rightarrow> 'm \<Rightarrow> 'm"
    and below :: "'k \<Rightarrow> 'm \<Rightarrow> 'm"
    and from_key :: "'k \<Rightarrow> 'm \<Rightarrow> 'm"
    and items :: "'m \<Rightarrow> ('k \<times> 'v) list"
    and wf :: "'m \<Rightarrow> bool"
  assumes items_sorted: "wf m \<Longrightarrow> sorted_wrt (<) (map fst (items m))"
    and get_items: "wf m \<Longrightarrow> get m = map_of (items m)"
    and get_ins: "wf m \<Longrightarrow> get (ins k v m) = (get m)(k \<mapsto> v)"
    and get_below: "wf m \<Longrightarrow> get (below k m) x = (if x < k then get m x else None)"
    and get_from: "wf m \<Longrightarrow> get (from_key k m) x = (if k \<le> x then get m x else None)"
    and wf_ins: "wf m \<Longrightarrow> wf (ins k v m)"
    and wf_below: "wf m \<Longrightarrow> wf (below k m)"
    and wf_from: "wf m \<Longrightarrow> wf (from_key k m)"
begin

lemma items_distinct: "wf m \<Longrightarrow> distinct (map fst (items m))"
  by (rule strict_sorted_iff [THEN iffD1, THEN conjunct2]) (rule items_sorted)

lemma get_iff_item: "wf m \<Longrightarrow> get m k = Some v \<longleftrightarrow> (k, v) \<in> set (items m)"
  by (simp add: get_items items_distinct)

lemma dom_get: "wf m \<Longrightarrow> dom (get m) = fst ` set (items m)"
  by (simp add: get_items dom_map_of_conv_image_fst)

lemma finite_dom: "wf m \<Longrightarrow> finite (dom (get m))"
  by (simp add: dom_get)

text \<open>Two maps that answer every lookup alike hold the same entries in the same order.\<close>

lemma items_from_get:
  assumes "wf m"
  shows "items m = map (\<lambda>k. (k, the (get m k))) (map fst (items m))"
proof -
  have "the (get m (fst e)) = snd e" if "e \<in> set (items m)" for e
    using get_iff_item [OF assms, of "fst e" "snd e"] that by simp
  then have "map (\<lambda>e. (fst e, the (get m (fst e)))) (items m) = map (\<lambda>e. e) (items m)"
    by (intro map_cong) auto
  then show ?thesis by (simp add: comp_def)
qed

lemma items_ext:
  assumes "wf m" and "wf n" and eq: "get m = get n"
  shows "items m = items n"
proof -
  have "set (map fst (items m)) = set (map fst (items n))"
    using dom_get [OF assms(1)] dom_get [OF assms(2)] eq by simp
  then have "map fst (items m) = map fst (items n)"
    using strict_sorted_equal items_sorted assms by blast
  then show ?thesis
    using items_from_get [OF assms(1)] items_from_get [OF assms(2)] eq by simp
qed

lemma split_partition:
  "wf m \<Longrightarrow> get m x = (if x < k then get (below k m) x else get (from_key k m) x)"
  by (auto simp: get_below get_from not_less)

lemma below_ins_ge: "wf m \<Longrightarrow> k \<le> x \<Longrightarrow> get (below k (ins x v m)) = get (below k m)"
  by (rule ext) (auto simp: get_below get_ins wf_ins)

lemma from_ins_less: "wf m \<Longrightarrow> x < k \<Longrightarrow> get (from_key k (ins x v m)) = get (from_key k m)"
  by (rule ext) (auto simp: get_from get_ins wf_ins)

end

section \<open>Entry lists provide the interface\<close>

lemma bt_insert_keys [simp]: "fst ` set (bt_insert k v m) = insert k (fst ` set m)"
  by (induction m) auto

lemma bt_wf_insert: "bt_wf m \<Longrightarrow> bt_wf (bt_insert k v m)"
proof (induction m)
  case (Cons e m)
  have keys: "set (map fst (bt_insert k v m)) = insert k (fst ` set m)"
    by (simp only: set_map bt_insert_keys)
  show ?case
    using Cons keys by (auto simp: bt_wf_def)
qed (simp add: bt_wf_def)

lemma bt_get_insert: "bt_get (bt_insert k v m) = (bt_get m)(k \<mapsto> v)" if "bt_wf m"
  using that
proof (induction m)
  case Nil
  then show ?case by (auto simp: bt_get_def)
next
  case (Cons e m)
  then have "map_of (bt_insert k v m) = (map_of m)(k \<mapsto> v)"
    by (simp add: bt_wf_def bt_get_def fun_eq_iff)
  moreover have "bt_get m = map_of m" for m :: "('a, 'b) btree_map"
    by (simp add: bt_get_def fun_eq_iff)
  ultimately show ?case by (cases e) (auto simp: fun_eq_iff)
qed

lemma bt_wf_filter: "bt_wf m \<Longrightarrow> bt_wf (filter P m)"
  unfolding bt_wf_def by (induction m) auto

lemma bt_wf_below [simp]: "bt_wf m \<Longrightarrow> bt_wf (bt_below k m)"
  by (simp add: bt_below_def bt_wf_filter)

lemma bt_wf_from [simp]: "bt_wf m \<Longrightarrow> bt_wf (bt_from k m)"
  by (simp add: bt_from_def bt_wf_filter)

lemma bt_get_filter_key:
  "bt_get (filter (\<lambda>e. P (fst e)) m) k = (if P k then bt_get m k else None)"
  by (induction m) (auto simp: bt_get_def)

lemma bt_get_below: "bt_get (bt_below k m) x = (if x < k then bt_get m x else None)"
  unfolding bt_below_def by (rule bt_get_filter_key)

lemma bt_get_from: "bt_get (bt_from k m) x = (if k \<le> x then bt_get m x else None)"
  unfolding bt_from_def by (rule bt_get_filter_key)

interpretation bt: ordered_map bt_get bt_insert bt_below bt_from "\<lambda>m. m" bt_wf
  by unfold_locales
    (simp_all add: bt_get_insert bt_get_below bt_get_from bt_wf_insert,
      simp_all add: bt_get_def fun_eq_iff bt_wf_def)

section \<open>Facts about entry lists\<close>

named_theorems btree_simps "rewriting of maps as entry lists"

lemma bt_wf_Nil [simp]: "bt_wf []"
  by (simp add: bt_wf_def)

lemma bt_wf_Cons [btree_simps]: "bt_wf (e # m) \<longleftrightarrow> (\<forall>x \<in> set m. fst e < fst x) \<and> bt_wf m"
  by (auto simp: bt_wf_def)

lemma bt_wf_append [btree_simps]:
  "bt_wf (m @ n) \<longleftrightarrow> bt_wf m \<and> bt_wf n \<and> (\<forall>x \<in> set m. \<forall>y \<in> set n. fst x < fst y)"
  by (auto simp: bt_wf_def sorted_wrt_append)

text \<open>Inserting above every key appends.\<close>

lemma bt_insert_above:
  "\<forall>x \<in> set m. fst x < k \<Longrightarrow> bt_insert k v m = m @ [(k, v)]"
  by (induction m) auto

lemma bt_below_set: "set (bt_below k m) = {e \<in> set m. fst e < k}"
  by (simp add: bt_below_def)

lemma bt_from_set: "set (bt_from k m) = {e \<in> set m. k \<le> fst e}"
  by (simp add: bt_from_def)

lemma bt_below_from: "bt_wf m \<Longrightarrow> bt_below k m @ bt_from k m = m"
proof (induction m)
  case (Cons e m)
  then have IH: "bt_below k m @ bt_from k m = m" by (simp add: btree_simps)
  show ?case
  proof (cases "fst e < k")
    case True
    then show ?thesis using IH by (simp add: bt_below_def bt_from_def)
  next
    case False
    with Cons.prems have "bt_below k m = []"
      by (fastforce simp: bt_below_def btree_simps filter_empty_conv)
    with False IH show ?thesis by (simp add: bt_below_def bt_from_def)
  qed
qed (simp add: bt_below_def bt_from_def)

lemma bt_wf_last: "bt_wf m \<Longrightarrow> x \<in> set m \<Longrightarrow> fst x \<le> fst (last m)"
  by (induction m) (auto simp: btree_simps order_less_imp_le)

lemma bt_wf_hd: "bt_wf m \<Longrightarrow> x \<in> set m \<Longrightarrow> fst (hd m) \<le> fst x"
  by (cases m) (auto simp: btree_simps order_less_imp_le)

lemma bt_get_Some_iff: "bt_wf m \<Longrightarrow> bt_get m k = Some v \<longleftrightarrow> (k, v) \<in> set m"
  by (rule bt.get_iff_item)

lemma bt_get_empty [simp]: "bt_get [] k = None"
  by (simp add: bt_get_def)

end
