(* ===== verification/Payload_Cache.thy ===== *)
theory Payload_Cache imports Ordered_Map Raft_Types
begin

text \<open>
  \<open>src/raft_log/state_machine/payload_cache.rs\<close>: the payloads kept in memory, bounded in
  number (\<open>max_items\<close>) and in bytes (\<open>capacity\<close>), with the eviction boundary
  \<open>last_evictable\<close>: a payload above it must stay because its record may not be on disk yet.

  \<open>size\<close> is a \<open>usize\<close>: its additions and subtractions wrap, as they do in a release build.
  The two eviction loops and the two pop loops are recursive functions that shrink the map.
  The lemmas show what each loop computes as one filter of the map, that \<open>size\<close> is the sum
  of the cached payload sizes, and that no operation drops a payload above the boundary,
  except those that are told to (truncation and clearing).
\<close>

section \<open>State and operations\<close>

record ('l, 'p) payload_cache =
  pc_max_items :: usize
  pc_capacity :: usize
  pc_size :: usize
  pc_cache :: "('l, 'p) btree_map"
  pc_last_evictable :: "'l option"

definition cache_new :: "usize \<Rightarrow> usize \<Rightarrow> ('l, 'p) payload_cache" where
  "cache_new max_items capacity =
     \<lparr>pc_max_items = max_items, pc_capacity = capacity, pc_size = 0, pc_cache = [],
      pc_last_evictable = None\<rparr>"

definition set_last_evictable ::
  "('l, 'p) payload_cache \<Rightarrow> 'l option \<Rightarrow> ('l, 'p) payload_cache" where
  "set_last_evictable c log_id = c\<lparr>pc_last_evictable := log_id\<rparr>"

definition item_count :: "('l, 'p) payload_cache \<Rightarrow> nat" where
  "item_count c = length (pc_cache c)"

definition need_evict :: "('l, 'p) payload_cache \<Rightarrow> bool" where
  "need_evict c \<longleftrightarrow>
     unat (pc_max_items c) < length (pc_cache c) \<or> pc_capacity c < pc_size c"

definition evict_first ::
  "('l, 'p, 'v) raft_types \<Rightarrow> ('l, 'p) payload_cache \<Rightarrow> ('l, 'p) payload_cache" where
  "evict_first T c =
     (case bt_pop_first (pc_cache c) of
        None \<Rightarrow> c
      | Some ((log_id, payload), rest) \<Rightarrow>
          c\<lparr>pc_cache := rest, pc_size := pc_size c - payload_size T payload\<rparr>)"

lemma evict_first_shorter:
  "bt_first (pc_cache c) = Some e \<Longrightarrow>
     length (pc_cache (evict_first T c)) < length (pc_cache c)"
  by (auto simp: evict_first_def bt_pop_first_def bt_first_def split: list.splits prod.splits)

function try_evict ::
  "('l::linorder, 'p, 'v) raft_types \<Rightarrow> ('l, 'p) payload_cache \<Rightarrow> ('l, 'p) payload_cache"
where
  "try_evict T c =
     (if need_evict c then
        (case bt_first (pc_cache c) of
           Some (log_id, payload) \<Rightarrow>
             if Some log_id \<le> pc_last_evictable c then try_evict T (evict_first T c) else c
         | None \<Rightarrow> c)
      else c)"
  by pat_completeness auto
termination
  by (relation "measure (\<lambda>(T, c). length (pc_cache c))") (auto simp: evict_first_shorter)

declare try_evict.simps [simp del]

function drain_evictable ::
  "('l::linorder, 'p, 'v) raft_types \<Rightarrow> ('l, 'p) payload_cache \<Rightarrow> ('l, 'p) payload_cache"
where
  "drain_evictable T c =
     (case bt_first (pc_cache c) of
        Some (log_id, payload) \<Rightarrow>
          if Some log_id \<le> pc_last_evictable c then drain_evictable T (evict_first T c) else c
      | None \<Rightarrow> c)"
  by pat_completeness auto
termination
  by (relation "measure (\<lambda>(T, c). length (pc_cache c))") (auto simp: evict_first_shorter)

declare drain_evictable.simps [simp del]

text \<open>
  \<open>insert\<close> adds the size of the new payload. It does not subtract that of a payload the key
  already had.
\<close>

definition cache_insert ::
  "('l::linorder, 'p, 'v) raft_types \<Rightarrow> 'l \<Rightarrow> 'p \<Rightarrow> ('l, 'p) payload_cache
     \<Rightarrow> ('l, 'p) payload_cache" where
  "cache_insert T key payload c =
     try_evict T
       (c\<lparr>pc_cache := bt_insert key payload (pc_cache c),
          pc_size := pc_size c + payload_size T payload\<rparr>)"

definition cache_get :: "('l, 'p) payload_cache \<Rightarrow> 'l \<Rightarrow> 'p option" where
  "cache_get c key = bt_get (pc_cache c) key"

text \<open>
  Both loops pop an entry first and put it back when it is to stay; the entry goes back
  with \<open>insert\<close>, to the end it came from.
\<close>

function cache_truncate_after ::
  "('l::linorder, 'p, 'v) raft_types \<Rightarrow> 'l \<Rightarrow> ('l, 'p) payload_cache
     \<Rightarrow> ('l, 'p) payload_cache" where
  "cache_truncate_after T key c =
     (case bt_pop_last (pc_cache c) of
        None \<Rightarrow> c
      | Some ((log_id, payload), rest) \<Rightarrow>
          if key < log_id then
            cache_truncate_after T key
              (c\<lparr>pc_cache := rest, pc_size := pc_size c - payload_size T payload\<rparr>)
          else c\<lparr>pc_cache := bt_insert log_id payload rest\<rparr>)"
  by pat_completeness auto
termination
  by (relation "measure (\<lambda>(T, key, c). length (pc_cache c))")
    (auto simp: bt_pop_last_def split: if_splits)

declare cache_truncate_after.simps [simp del]

function cache_purge_upto ::
  "('l::linorder, 'p, 'v) raft_types \<Rightarrow> 'l \<Rightarrow> ('l, 'p) payload_cache
     \<Rightarrow> ('l, 'p) payload_cache" where
  "cache_purge_upto T key c =
     (case bt_pop_first (pc_cache c) of
        None \<Rightarrow> c
      | Some ((log_id, payload), rest) \<Rightarrow>
          if log_id \<le> key \<and> Some log_id \<le> pc_last_evictable c then
            cache_purge_upto T key
              (c\<lparr>pc_cache := rest, pc_size := pc_size c - payload_size T payload\<rparr>)
          else c\<lparr>pc_cache := bt_insert log_id payload rest\<rparr>)"
  by pat_completeness auto
termination
  by (relation "measure (\<lambda>(T, key, c). length (pc_cache c))")
    (auto simp: bt_pop_first_def split: list.splits)

declare cache_purge_upto.simps [simp del]

definition cache_clear :: "('l, 'p) payload_cache \<Rightarrow> ('l, 'p) payload_cache" where
  "cache_clear c = c\<lparr>pc_cache := [], pc_size := 0\<rparr>"

section \<open>What the loops compute\<close>

text \<open>
  \<open>shed n\<close> drops the \<open>n\<close> smallest entries and takes their sizes off. Both eviction loops
  and the purge loop are a \<open>shed\<close>; they differ in when they stop.
\<close>

definition total_payload :: "('l, 'p, 'v) raft_types \<Rightarrow> ('l, 'p) btree_map \<Rightarrow> usize" where
  "total_payload T m = sum_list (map (\<lambda>e. payload_size T (snd e)) m)"

definition shed ::
  "('l, 'p, 'v) raft_types \<Rightarrow> nat \<Rightarrow> ('l, 'p) payload_cache \<Rightarrow> ('l, 'p) payload_cache" where
  "shed T n c =
     c\<lparr>pc_cache := drop n (pc_cache c),
       pc_size := pc_size c - total_payload T (take n (pc_cache c))\<rparr>"

definition cache_wf :: "('l::linorder, 'p) payload_cache \<Rightarrow> bool" where
  "cache_wf c \<longleftrightarrow> bt_wf (pc_cache c)"

definition cache_sized :: "('l, 'p, 'v) raft_types \<Rightarrow> ('l, 'p) payload_cache \<Rightarrow> bool" where
  "cache_sized T c \<longleftrightarrow> pc_size c = total_payload T (pc_cache c)"

definition evictable :: "('l::linorder, 'p) payload_cache \<Rightarrow> 'l \<Rightarrow> bool" where
  "evictable c k \<longleftrightarrow> Some k \<le> pc_last_evictable c"

named_theorems cache_simps "fields of caches after an operation"

lemma total_payload_simps [simp]:
  "total_payload T [] = 0"
  "total_payload T (e # m) = payload_size T (snd e) + total_payload T m"
  "total_payload T (m @ n) = total_payload T m + total_payload T n"
  by (simp_all add: total_payload_def)

lemma shed_simps [simp, cache_simps]:
  "pc_cache (shed T n c) = drop n (pc_cache c)"
  "pc_last_evictable (shed T n c) = pc_last_evictable c"
  "pc_max_items (shed T n c) = pc_max_items c"
  "pc_capacity (shed T n c) = pc_capacity c"
  "shed T 0 c = c"
  "evictable (shed T n c) = evictable c"
  by (simp_all add: shed_def evictable_def fun_eq_iff)

lemma shed_shed: "shed T m (shed T n c) = shed T (n + m) c"
proof -
  have "take (n + m) xs = take n xs @ take m (drop n xs)" for xs :: "('a \<times> 'b) list"
    by (simp add: take_add)
  then show ?thesis by (simp add: shed_def add.commute diff_diff_eq)
qed

lemma evict_first_shed: "evict_first T c = shed T 1 c"
  by (cases "pc_cache c") (auto simp: evict_first_def bt_pop_first_def shed_def)

lemma bt_first_Some: "bt_first m = Some e \<longleftrightarrow> m \<noteq> [] \<and> hd m = e"
  by (auto simp: bt_first_def split: list.splits)

lemma take_Suc_first: "bt_first m = Some e \<Longrightarrow> take (Suc n) m = e # take n (drop 1 m)"
  by (cases m) (auto simp: bt_first_def)

text \<open>Eviction stops at the first point where the limits hold or the boundary is reached.\<close>

definition evict_stops ::
  "('l::linorder, 'p, 'v) raft_types \<Rightarrow> ('l, 'p) payload_cache \<Rightarrow> nat \<Rightarrow> bool" where
  "evict_stops T c n \<longleftrightarrow>
     n \<le> length (pc_cache c) \<and>
     (\<forall>e \<in> set (take n (pc_cache c)). evictable c (fst e)) \<and>
     (\<forall>m < n. need_evict (shed T m c)) \<and>
     (need_evict (shed T n c) \<longrightarrow>
        (\<forall>e. bt_first (drop n (pc_cache c)) = Some e \<longrightarrow> \<not> evictable c (fst e)))"

lemma evict_stops_0:
  "\<not> need_evict c \<or> (\<forall>e. bt_first (pc_cache c) = Some e \<longrightarrow> \<not> evictable c (fst e))
     \<Longrightarrow> evict_stops T c 0"
  by (auto simp: evict_stops_def)

lemma evict_stops_Suc:
  assumes n: "evict_stops T (shed T 1 c) n" and need: "need_evict c"
    and first: "bt_first (pc_cache c) = Some e" and ev: "evictable c (fst e)"
  shows "evict_stops T c (Suc n)"
proof -
  have all: "need_evict (shed T m c)" if "m < Suc n" for m
    using n need that by (cases m) (auto simp: evict_stops_def shed_shed)
  have "Suc n \<le> length (pc_cache c)"
    using n first by (cases "pc_cache c") (auto simp: evict_stops_def bt_first_def)
  then show ?thesis
    using n ev all take_Suc_first [OF first, of n]
    by (auto simp: evict_stops_def shed_shed)
qed

lemma try_evict_shed: "\<exists>n. try_evict T c = shed T n c \<and> evict_stops T c n"
proof (induction T c rule: try_evict.induct)
  case (1 T c)
  show ?case
  proof (cases "need_evict c \<and> (\<exists>e. bt_first (pc_cache c) = Some e \<and> evictable c (fst e))")
    case True
    then obtain e where e: "need_evict c" "bt_first (pc_cache c) = Some e" "evictable c (fst e)"
      by blast
    then obtain n where
      n: "try_evict T (evict_first T c) = shed T n (evict_first T c)"
        "evict_stops T (evict_first T c) n"
      using "1.IH" [of e] by (cases e) (auto simp: evictable_def)
    have "try_evict T c = shed T (Suc n) c"
      using e n by (cases e) (simp add: try_evict.simps [of T c] evictable_def
          evict_first_shed shed_shed)
    with n e evict_stops_Suc [of T c n e] show ?thesis
      by (auto simp: evict_first_shed)
  next
    case False
    then have "try_evict T c = shed T 0 c"
      by (auto simp: try_evict.simps [of T c] evictable_def split: option.splits)
    with False show ?thesis by (blast intro: evict_stops_0)
  qed
qed

text \<open>Draining and purging shed the entries at the front that satisfy their test.\<close>

definition front :: "('k \<Rightarrow> bool) \<Rightarrow> ('k, 'v) btree_map \<Rightarrow> nat" where
  "front P m = length (takeWhile (\<lambda>e. P (fst e)) m)"

lemma drop_front: "drop (front P m) m = dropWhile (\<lambda>e. P (fst e)) m"
  by (simp add: front_def dropWhile_eq_drop)

lemma front_simps [simp]:
  "front P [] = 0"
  "front P (e # m) = (if P (fst e) then Suc (front P m) else 0)"
  by (simp_all add: front_def)

lemma evictable_abs: "(\<lambda>k. Some k \<le> pc_last_evictable c) = evictable c"
  by (simp add: fun_eq_iff evictable_def)

lemma drain_shed: "drain_evictable T c = shed T (front (evictable c) (pc_cache c)) c"
proof (induction T c rule: drain_evictable.induct)
  case (1 T c)
  show ?case
  proof (cases "pc_cache c")
    case Nil
    then show ?thesis by (simp add: drain_evictable.simps [of T c] bt_first_def)
  next
    case (Cons e m)
    show ?thesis
    proof (cases "evictable c (fst e)")
      case True
      then have "drain_evictable T (evict_first T c) =
          shed T (front (evictable c) m) (evict_first T c)"
        using "1.IH" [of e] Cons
        by (cases e) (auto simp: evict_first_shed bt_first_def evictable_def evictable_abs)
      with True Cons show ?thesis
        by (cases e) (simp add: drain_evictable.simps [of T c] bt_first_def evictable_def
            evictable_abs evict_first_shed shed_shed)
    next
      case False
      with Cons show ?thesis
        by (cases e) (simp add: drain_evictable.simps [of T c] bt_first_def evictable_def)
    qed
  qed
qed

lemma insert_first_back: "bt_wf (e # m) \<Longrightarrow> bt_insert (fst e) (snd e) m = e # m"
  by (cases m) (auto simp: btree_simps)

lemma insert_last_back: "bt_wf (m @ [e]) \<Longrightarrow> bt_insert (fst e) (snd e) m = m @ [e]"
  by (subst bt_insert_above) (auto simp: btree_simps)

lemma purge_shed:
  "cache_wf c \<Longrightarrow>
     cache_purge_upto T key c = shed T (front (\<lambda>k. k \<le> key \<and> evictable c k) (pc_cache c)) c"
proof (induction T key c rule: cache_purge_upto.induct)
  case (1 T key c)
  show ?case
  proof (cases "pc_cache c")
    case Nil
    then show ?thesis by (simp add: cache_purge_upto.simps [of T key c] bt_pop_first_def)
  next
    case (Cons e m)
    obtain k v where e: "e = (k, v)" by (cases e)
    show ?thesis
    proof (cases "k \<le> key \<and> evictable c k")
      case True
      let ?c = "c\<lparr>pc_cache := m, pc_size := pc_size c - payload_size T v\<rparr>"
      have shed: "?c = shed T 1 c" using Cons e by (simp add: shed_def)
      have "cache_purge_upto T key ?c =
          shed T (front (\<lambda>k. k \<le> key \<and> evictable ?c k) m) ?c"
        using "1.IH" [of "((k, v), m)" "(k, v)" m k v] True Cons e "1.prems"
        by (auto simp: bt_pop_first_def evictable_def cache_wf_def btree_simps)
      moreover have "evictable ?c = evictable c" by (simp add: evictable_def fun_eq_iff)
      ultimately have "cache_purge_upto T key ?c =
          shed T (Suc (front (\<lambda>k. k \<le> key \<and> evictable c k) m)) c"
        unfolding shed by (simp add: shed_shed)
      with True Cons e show ?thesis
        by (simp add: cache_purge_upto.simps [of T key c] bt_pop_first_def evictable_def)
    next
      case False
      have same: "c\<lparr>pc_cache := bt_insert k v m\<rparr> = c"
        using insert_first_back [of e m] Cons e "1.prems" by (simp add: cache_wf_def)
      have "cache_purge_upto T key c = c"
        using False Cons e same
        by (auto simp: cache_purge_upto.simps [of T key c] bt_pop_first_def evictable_def)
      with False Cons e show ?thesis by auto
    qed
  qed
qed

lemma truncate_filter:
  "cache_wf c \<Longrightarrow>
     cache_truncate_after T key c =
       c\<lparr>pc_cache := filter (\<lambda>e. fst e \<le> key) (pc_cache c),
         pc_size := pc_size c - total_payload T (filter (\<lambda>e. key < fst e) (pc_cache c))\<rparr>"
proof (induction T key c rule: cache_truncate_after.induct)
  case (1 T key c)
  show ?case
  proof (cases "pc_cache c" rule: rev_cases)
    case Nil
    then show ?thesis by (simp add: cache_truncate_after.simps [of T key c] bt_pop_last_def)
  next
    case (snoc m e)
    obtain k v where e: "e = (k, v)" by (cases e)
    have wf: "bt_wf (m @ [e])" using "1.prems" snoc by (simp add: cache_wf_def)
    show ?thesis
    proof (cases "key < k")
      case True
      let ?c = "c\<lparr>pc_cache := m, pc_size := pc_size c - payload_size T v\<rparr>"
      have "cache_truncate_after T key ?c =
          ?c\<lparr>pc_cache := filter (\<lambda>e. fst e \<le> key) m,
            pc_size := pc_size ?c - total_payload T (filter (\<lambda>e. key < fst e) m)\<rparr>"
        using "1.IH" [of "((k, v), m)" "(k, v)" m k v] True snoc e wf
        by (simp add: bt_pop_last_def cache_wf_def btree_simps)
      with True snoc e show ?thesis
        by (simp add: cache_truncate_after.simps [of T key c] bt_pop_last_def not_le algebra_simps)
    next
      case False
      have "\<forall>x \<in> set m. fst x \<le> key"
        using wf False e by (fastforce simp: btree_simps)
      then have "filter (\<lambda>e. fst e \<le> key) m = m" "filter (\<lambda>e. key < fst e) m = []"
        by (auto simp: filter_empty_conv not_less)
      moreover have "bt_insert k v m = pc_cache c"
        using insert_last_back [OF wf] snoc e by simp
      ultimately show ?thesis
        using False snoc e
        by (simp add: cache_truncate_after.simps [of T key c] bt_pop_last_def)
    qed
  qed
qed

section \<open>Contents after an operation\<close>

lemma dropWhile_down_closed:
  assumes "bt_wf m" and down: "\<And>a b. a < b \<Longrightarrow> P b \<Longrightarrow> P a"
  shows "dropWhile (\<lambda>e. P (fst e)) m = filter (\<lambda>e. \<not> P (fst e)) m"
  using assms(1)
proof (induction m)
  case (Cons e m)
  show ?case
  proof (cases "P (fst e)")
    case False
    then have "\<forall>x \<in> set m. \<not> P (fst x)"
      using Cons.prems down by (auto simp: btree_simps)
    with False show ?thesis by simp
  qed (use Cons in \<open>simp add: btree_simps\<close>)
qed simp

lemma evictable_down: "a < b \<Longrightarrow> evictable c b \<Longrightarrow> evictable c a"
  by (auto simp: evictable_def Some_le_iff)

lemma drain_filter:
  "cache_wf c \<Longrightarrow>
     pc_cache (drain_evictable T c) = filter (\<lambda>e. \<not> evictable c (fst e)) (pc_cache c)"
  by (simp add: drain_shed drop_front dropWhile_down_closed evictable_down cache_wf_def)

lemma purge_filter:
  assumes "cache_wf c"
  shows "pc_cache (cache_purge_upto T key c) =
     filter (\<lambda>e. \<not> (fst e \<le> key \<and> evictable c (fst e))) (pc_cache c)"
  unfolding purge_shed [OF assms] shed_simps drop_front
  by (rule dropWhile_down_closed) (use assms in \<open>auto simp: cache_wf_def intro: evictable_down\<close>)

lemma cache_wf_filter: "cache_wf c \<Longrightarrow> bt_wf (filter P (pc_cache c))"
  by (simp add: cache_wf_def bt_wf_filter)

lemma cache_wf_drop: "cache_wf c \<Longrightarrow> bt_wf (drop n (pc_cache c))"
  by (simp add: cache_wf_def bt_wf_def flip: drop_map)

lemma cache_wf_shed [simp]: "cache_wf c \<Longrightarrow> cache_wf (shed T n c)"
  using cache_wf_drop [of c n] by (simp add: cache_wf_def)

lemma cache_wf_ops [simp]:
  assumes "cache_wf c"
  shows "cache_wf (try_evict T c)" "cache_wf (drain_evictable T c)"
    "cache_wf (cache_purge_upto T key c)" "cache_wf (cache_truncate_after T key c)"
    "cache_wf (cache_clear c)" "cache_wf (set_last_evictable c b)"
proof -
  obtain n where "try_evict T c = shed T n c" using try_evict_shed by blast
  then show "cache_wf (try_evict T c)" using assms by simp
  show "cache_wf (drain_evictable T c)" "cache_wf (cache_purge_upto T key c)"
    using assms by (simp_all add: drain_shed purge_shed)
  show "cache_wf (cache_truncate_after T key c)"
    using assms cache_wf_filter [OF assms] by (simp add: truncate_filter cache_wf_def)
  show "cache_wf (cache_clear c)" "cache_wf (set_last_evictable c b)"
    using assms by (simp_all add: cache_clear_def set_last_evictable_def cache_wf_def)
qed

lemma cache_wf_insert [simp]: "cache_wf c \<Longrightarrow> cache_wf (cache_insert T k p c)"
  by (simp add: cache_insert_def cache_wf_def bt_wf_insert [unfolded])
    (rule cache_wf_ops(1) [unfolded cache_wf_def], simp add: bt_wf_insert)

text \<open>Shedding evictable entries does not change the lookups above the boundary.\<close>

lemma get_shed:
  assumes wf: "cache_wf c" and front: "\<forall>e \<in> set (take n (pc_cache c)). P (fst e)" and "\<not> P k"
  shows "cache_get (shed T n c) k = cache_get c k"
proof -
  have "map_of (xs @ ys) k = map_of ys k" if "\<forall>e \<in> set xs. P (fst e)" for xs ys :: "('a, 'b) btree_map"
    using that assms(3) by (induction xs) auto
  from this [OF front, of "drop n (pc_cache c)"] show ?thesis
    by (simp add: cache_get_def bt_get_def)
qed

lemma get_shed_imp:
  assumes wf: "cache_wf c" and "cache_get (shed T n c) k = Some p"
  shows "cache_get c k = Some p"
proof -
  have "(k, p) \<in> set (drop n (pc_cache c))"
    using assms cache_wf_drop [OF wf] by (simp add: cache_get_def bt_get_Some_iff)
  then have "(k, p) \<in> set (pc_cache c)" by (rule in_set_dropD)
  with wf show ?thesis by (simp add: cache_get_def bt_get_Some_iff cache_wf_def)
qed

lemma cache_boundary [simp]:
  "pc_last_evictable (try_evict T c) = pc_last_evictable c"
  "pc_last_evictable (cache_insert T k p c) = pc_last_evictable c"
  "pc_last_evictable (drain_evictable T c) = pc_last_evictable c"
  "pc_last_evictable (cache_clear c) = pc_last_evictable c"
  "pc_last_evictable (set_last_evictable c b) = b"
proof -
  have kept: "pc_last_evictable (try_evict T d) = pc_last_evictable d" for d
    using try_evict_shed [of T d] by auto
  then show "pc_last_evictable (try_evict T c) = pc_last_evictable c" .
  show "pc_last_evictable (cache_insert T k p c) = pc_last_evictable c"
    by (simp add: cache_insert_def kept)
qed (simp_all add: drain_shed cache_clear_def set_last_evictable_def)

lemma cache_boundary_wf [simp]:
  "cache_wf c \<Longrightarrow> pc_last_evictable (cache_purge_upto T key c) = pc_last_evictable c"
  "cache_wf c \<Longrightarrow> pc_last_evictable (cache_truncate_after T key c) = pc_last_evictable c"
  by (simp_all add: purge_shed truncate_filter)

text \<open>Lookups after each operation; \<open>try_evict\<close> may drop what is evictable, nothing else.\<close>

lemma get_try_evict:
  assumes "cache_wf c" and "\<not> evictable c k"
  shows "cache_get (try_evict T c) k = cache_get c k"
proof -
  obtain n where "try_evict T c = shed T n c" "evict_stops T c n"
    using try_evict_shed by blast
  then show ?thesis
    using get_shed [OF assms(1), of n "evictable c"] assms(2) by (auto simp: evict_stops_def)
qed

lemma get_try_evict_imp:
  "cache_wf c \<Longrightarrow> cache_get (try_evict T c) k = Some p \<Longrightarrow> cache_get c k = Some p"
  by (metis try_evict_shed get_shed_imp)

lemma get_drain:
  "cache_wf c \<Longrightarrow>
     cache_get (drain_evictable T c) k = (if evictable c k then None else cache_get c k)"
  by (simp add: cache_get_def drain_filter bt_get_filter_key [where P = "\<lambda>k. \<not> evictable c k"])

lemma get_purge:
  assumes "cache_wf c"
  shows "cache_get (cache_purge_upto T key c) k =
     (if k \<le> key \<and> evictable c k then None else cache_get c k)"
  unfolding cache_get_def purge_filter [OF assms]
  by (subst bt_get_filter_key [where P = "\<lambda>k. \<not> (k \<le> key \<and> evictable c k)"]) simp

lemma get_truncate:
  assumes "cache_wf c"
  shows "cache_get (cache_truncate_after T key c) k = (if k \<le> key then cache_get c k else None)"
  by (simp add: cache_get_def truncate_filter [OF assms] bt_get_filter_key [where P = "\<lambda>k. k \<le> key"])

lemma get_clear: "cache_get (cache_clear c) k = None"
  by (simp add: cache_get_def cache_clear_def)

lemma get_set_last_evictable: "cache_get (set_last_evictable c b) k = cache_get c k"
  by (simp add: cache_get_def set_last_evictable_def)

text \<open>An insert: the state that \<open>try_evict\<close> starts from.\<close>

definition cache_put ::
  "('l::linorder, 'p, 'v) raft_types \<Rightarrow> 'l \<Rightarrow> 'p \<Rightarrow> ('l, 'p) payload_cache
     \<Rightarrow> ('l, 'p) payload_cache" where
  "cache_put T key payload c =
     c\<lparr>pc_cache := bt_insert key payload (pc_cache c),
       pc_size := pc_size c + payload_size T payload\<rparr>"

lemma cache_insert_put: "cache_insert T key payload c = try_evict T (cache_put T key payload c)"
  by (simp add: cache_insert_def cache_put_def)

lemma cache_put_facts [simp]:
  "evictable (cache_put T key p c) = evictable c"
  "cache_wf c \<Longrightarrow> cache_wf (cache_put T key p c)"
  "pc_last_evictable (cache_put T key p c) = pc_last_evictable c"
  by (simp_all add: cache_put_def evictable_def fun_eq_iff cache_wf_def bt_wf_insert)

lemma get_put:
  "cache_wf c \<Longrightarrow> cache_get (cache_put T key p c) k = (if k = key then Some p else cache_get c k)"
  by (simp add: cache_get_def cache_put_def bt_get_insert cache_wf_def)

lemma get_insert:
  "cache_wf c \<Longrightarrow> \<not> evictable c k \<Longrightarrow>
     cache_get (cache_insert T key p c) k = (if k = key then Some p else cache_get c k)"
  by (simp add: cache_insert_put get_try_evict get_put)

lemma get_insert_imp:
  "cache_wf c \<Longrightarrow> cache_get (cache_insert T key p c) k = Some q \<Longrightarrow>
     (if k = key then q = p else cache_get c k = Some q)"
  using get_try_evict_imp [of "cache_put T key p c" T k q]
  by (simp add: cache_insert_put get_put split: if_splits)

text \<open>Where eviction stops: within the limits, or at the boundary.\<close>

lemma try_evict_stop:
  assumes "cache_wf c"
  shows "\<not> need_evict (try_evict T c) \<or>
     (\<forall>k. cache_get (try_evict T c) k \<noteq> None \<longrightarrow> \<not> evictable c k)"
proof -
  obtain n where n: "try_evict T c = shed T n c" "evict_stops T c n"
    using try_evict_shed by blast
  have wf: "bt_wf (drop n (pc_cache c))" using assms by (rule cache_wf_drop)
  have "\<not> evictable c k" if need: "need_evict (shed T n c)" and k: "cache_get (shed T n c) k \<noteq> None"
    for k
  proof -
    from k wf obtain v where v: "(k, v) \<in> set (drop n (pc_cache c))"
      by (auto simp: cache_get_def bt_get_Some_iff)
    then obtain e where e: "bt_first (drop n (pc_cache c)) = Some e" "hd (drop n (pc_cache c)) = e"
      by (cases "drop n (pc_cache c)") (auto simp: bt_first_def)
    then have "\<not> evictable c (fst e)" using n(2) need by (auto simp: evict_stops_def)
    moreover have "fst e \<le> k" using bt_wf_hd [OF wf v] e(2) by simp
    ultimately show ?thesis using evictable_down by (metis order_less_le)
  qed
  then show ?thesis using n(1) by auto
qed

section \<open>The size counter over any run\<close>

text \<open>
  The operations the state machine and the flush callback issue. The counter is exact as
  long as no insert replaces a payload.
\<close>

datatype ('l, 'p) cache_op =
    OpInsert 'l 'p
  | OpSetEvictable "'l option"
  | OpDrain
  | OpTruncate 'l
  | OpPurge 'l
  | OpClear

fun cache_step ::
  "('l::linorder, 'p, 'v) raft_types \<Rightarrow> ('l, 'p) payload_cache \<Rightarrow> ('l, 'p) cache_op
     \<Rightarrow> ('l, 'p) payload_cache" where
  "cache_step T c (OpInsert k p) = cache_insert T k p c"
| "cache_step T c (OpSetEvictable b) = set_last_evictable c b"
| "cache_step T c OpDrain = drain_evictable T c"
| "cache_step T c (OpTruncate k) = cache_truncate_after T k c"
| "cache_step T c (OpPurge k) = cache_purge_upto T k c"
| "cache_step T c OpClear = cache_clear c"

definition fresh_insert :: "('l, 'p) payload_cache \<Rightarrow> ('l, 'p) cache_op \<Rightarrow> bool" where
  "fresh_insert c op = (case op of OpInsert k p \<Rightarrow> cache_get c k = None | _ \<Rightarrow> True)"

definition cache_inv ::
  "('l::linorder, 'p, 'v) raft_types \<Rightarrow> ('l, 'p) payload_cache \<Rightarrow> bool" where
  "cache_inv T c \<longleftrightarrow> cache_wf c \<and> cache_sized T c"

definition same_limits :: "('l, 'p) payload_cache \<Rightarrow> ('l, 'p) payload_cache \<Rightarrow> bool" where
  "same_limits c d \<longleftrightarrow> pc_max_items d = pc_max_items c \<and> pc_capacity d = pc_capacity c"

lemma total_take_drop: "total_payload T (drop n m) = total_payload T m - total_payload T (take n m)"
proof -
  have "total_payload T m = total_payload T (take n m @ drop n m)"
    by (simp only: append_take_drop_id)
  then show ?thesis by (simp only: total_payload_simps) simp
qed

lemma total_filter:
  "total_payload T (filter P m) = total_payload T m - total_payload T (filter (\<lambda>e. \<not> P e) m)"
  by (induction m) (simp_all add: algebra_simps)

lemma total_insert:
  "bt_get m k = None \<Longrightarrow> total_payload T (bt_insert k p m) = total_payload T m + payload_size T p"
  by (induction m) (auto simp: bt_get_def algebra_simps split: if_splits)

lemma sized_shed: "cache_sized T c \<Longrightarrow> cache_sized T (shed T n c)"
  by (simp add: cache_sized_def shed_def total_take_drop)

lemma sized_put: "cache_get c k = None \<Longrightarrow> cache_sized T c \<Longrightarrow> cache_sized T (cache_put T k p c)"
  by (simp add: cache_sized_def cache_put_def cache_get_def total_insert)

lemma sized_try_evict: "cache_sized T c \<Longrightarrow> cache_sized T (try_evict T c)"
  using try_evict_shed [of T c] by (auto simp: sized_shed)

lemma sized_truncate:
  "cache_wf c \<Longrightarrow> cache_sized T c \<Longrightarrow> cache_sized T (cache_truncate_after T k c)"
  by (simp add: cache_sized_def truncate_filter total_filter [of _ "\<lambda>e. fst e \<le> k"] not_le)

lemma limits_shed [simp]: "same_limits c (shed T n c)" for c :: "('l::linorder, 'p) payload_cache"
  by (simp add: same_limits_def)

lemma limits_try_evict: "same_limits c (try_evict T c)"
  using try_evict_shed [of T c] by auto

lemma cache_step_inv:
  "cache_inv T c \<Longrightarrow> fresh_insert c op \<Longrightarrow> cache_inv T (cache_step T c op)"
proof (cases op)
  case (OpSetEvictable b)
  then show "cache_inv T c \<Longrightarrow> ?thesis"
    by (simp add: cache_inv_def) (simp add: set_last_evictable_def cache_sized_def)
next
  case OpClear
  then show "cache_inv T c \<Longrightarrow> ?thesis"
    by (simp add: cache_inv_def) (simp add: cache_clear_def cache_sized_def)
qed (auto simp: cache_inv_def fresh_insert_def cache_insert_put drain_shed purge_shed
    sized_shed sized_put sized_try_evict sized_truncate)

lemma cache_step_limits: "cache_inv T c \<Longrightarrow> same_limits c (cache_step T c op)"
proof (cases op)
  case (OpInsert k p)
  then show ?thesis
    using limits_try_evict [of "cache_put T k p c" T]
    by (simp add: cache_insert_put) (simp add: same_limits_def cache_put_def)
qed (auto simp: cache_inv_def drain_shed purge_shed truncate_filter,
    auto simp: same_limits_def set_last_evictable_def cache_clear_def)

interpretation pc: progress_machine "cache_step T" fresh_insert "cache_inv T" same_limits
  for T :: "('l::linorder, 'p, 'v) raft_types"
  by unfold_locales
    (erule (1) cache_step_inv, erule cache_step_limits, simp_all add: same_limits_def)

lemma cache_new_inv: "cache_inv T (cache_new items cap)"
  by (simp add: cache_inv_def cache_wf_def cache_sized_def cache_new_def)

end
