(* ===== verification/Raft_Config.thy ===== *)
theory Raft_Config imports RL_Prelude
begin

text \<open>
  \<open>src/config.rs\<close>: the two cache limits, optional with defaults evaluated by the getters,
  and the configuration of the WAL, which belongs to the crate \<open>chunked_wal\<close> and is a
  type variable here.
\<close>

record 'w config =
  cfg_wal :: 'w
  cfg_log_cache_max_items :: "usize option"
  cfg_log_cache_capacity :: "usize option"

text \<open>\<open>Config::new\<close>, given the WAL configuration that \<open>chunked_wal::Config::new(dir)\<close> returns.\<close>

definition config_new :: "(string \<Rightarrow> 'w) \<Rightarrow> string \<Rightarrow> 'w config" where
  "config_new wal_config_new dir =
     \<lparr>cfg_wal = wal_config_new dir, cfg_log_cache_max_items = None,
      cfg_log_cache_capacity = None\<rparr>"

definition log_cache_max_items :: "'w config \<Rightarrow> usize" where
  "log_cache_max_items cfg =
     (case cfg_log_cache_max_items cfg of Some n \<Rightarrow> n | None \<Rightarrow> 100000)"

definition log_cache_capacity :: "'w config \<Rightarrow> usize" where
  "log_cache_capacity cfg =
     (case cfg_log_cache_capacity cfg of Some n \<Rightarrow> n | None \<Rightarrow> 1024 * 1024 * 1024)"

end
