(* ===== verification/State_Machine.thy ===== *)
theory State_Machine imports Raft_State Payload_Cache Raft_Config
begin

text \<open>
  \<open>src/raft_log/state_machine/mod.rs\<close> and \<open>src/raft_log/log_data.rs\<close>: the state machine
  that the WAL drives. It holds the log map (index to log id and place of the record), the
  payload cache and the log state. \<open>apply\<close> changes the map and the cache first and then
  runs \<open>RaftLogState::apply\<close>; \<open>check\<close> is what the live store asks before it writes a
  record; \<open>check_checkpoint\<close> compares a declared state with the log map.

  Chunk ids and segments are the WAL's and stay type variables. The cache sits behind an
  \<open>RwLock\<close>; the model takes each locked section as one step.

  The invariant \<open>sm_inv\<close> says that the log map is the run of entries in \<open>(purged, last]\<close>:
  consecutive indexes, ascending ids, right after the purge position and ending at
  \<open>last\<close>. The lemmas show which records keep it, and that replaying a WAL whose
  oldest chunks are gone rebuilds the same log state and the same log map.
\<close>

section \<open>State and operations\<close>

record ('l, 'c, 'g) log_data =
  ld_log_id :: 'l
  ld_chunk_id :: 'c
  ld_segment :: 'g

record ('l, 'p, 'v, 'u, 'c, 'g) state_machine =
  sm_log :: "(u64, ('l, 'c, 'g) log_data) btree_map"
  sm_cache :: "('l, 'p) payload_cache"
  sm_state :: "('l, 'v, 'u) raft_log_state"

definition sm_new :: "'w config \<Rightarrow> ('l, 'p, 'v, 'u, 'c, 'g) state_machine" where
  "sm_new cfg =
     \<lparr>sm_log = [],
      sm_cache = cache_new (log_cache_max_items cfg) (log_cache_capacity cfg),
      sm_state = default_state\<rparr>"

definition sm_check ::
  "('l::linorder, 'p, 'v::order) raft_types \<Rightarrow> ('l, 'p, 'v, 'u, 'c, 'g) state_machine
     \<Rightarrow> ('l, 'p, 'v, 'u) raft_record \<Rightarrow> (unit, ('l, 'v) state_error) outcome" where
  "sm_check T sm rec = state_check T (sm_state sm) rec"

definition check_checkpoint ::
  "('l::linorder, 'p, 'v) raft_types \<Rightarrow> ('l, 'p, 'v, 'u, 'c, 'g) state_machine
     \<Rightarrow> ('l, 'v, 'u) raft_log_state \<Rightarrow> (unit, ('l, 'v) state_error) outcome" where
  "check_checkpoint T sm st =
     (case bt_first (sm_log sm) of
        None \<Rightarrow> Ok ()
      | Some (_, first_data) \<Rightarrow>
          (case bt_last (sm_log sm) of
             None \<Rightarrow> Panic
           | Some (_, last_data) \<Rightarrow>
               let first_index = log_index T (ld_log_id first_data);
                   index_after_purged = next_log_index T (st_purged st);
                   starts_at_right_index = (first_index = index_after_purged);
                   starts_above_purged = (st_purged st < Some (ld_log_id first_data));
                   ends_at_last = (Some (ld_log_id last_data) = st_last st)
               in if starts_at_right_index \<and> starts_above_purged \<and> ends_at_last then Ok ()
                  else Err (CheckpointLogMismatch (ld_log_id first_data) (ld_log_id last_data)
                              (st_purged st) (st_last st))))"

text \<open>The \<open>match\<close> of \<open>apply\<close>: what a record does to the log map and the cache.\<close>

fun sm_touch ::
  "('l::linorder, 'p, 'v) raft_types \<Rightarrow> ('l, 'p, 'v, 'u, 'c, 'g) state_machine
     \<Rightarrow> ('l, 'p, 'v, 'u) raft_record \<Rightarrow> 'c \<Rightarrow> 'g
     \<Rightarrow> ('l, 'p, 'v, 'u, 'c, 'g) state_machine" where
  "sm_touch T sm (Action (SaveVote vote)) chunk seg = sm"
| "sm_touch T sm (Action (Append log_id payload)) chunk seg =
     sm\<lparr>sm_log := bt_insert (log_index T log_id)
                   \<lparr>ld_log_id = log_id, ld_chunk_id = chunk, ld_segment = seg\<rparr> (sm_log sm),
        sm_cache := cache_insert T log_id payload (sm_cache sm)\<rparr>"
| "sm_touch T sm (Action (Commit committed)) chunk seg = sm"
| "sm_touch T sm (Action (TruncateAfter log_id)) chunk seg =
     (let index = next_log_index T log_id
      in sm\<lparr>sm_log := fst (bt_split_off index (sm_log sm)),
            sm_cache :=
              (case log_id of
                 Some l \<Rightarrow> cache_truncate_after T l (sm_cache sm)
               | None \<Rightarrow> cache_clear (sm_cache sm))\<rparr>)"
| "sm_touch T sm (Action (PurgeUpto log_id)) chunk seg =
     (let index = next_log_index T (Some log_id)
      in sm\<lparr>sm_log := snd (bt_split_off index (sm_log sm)),
            sm_cache := cache_purge_upto T log_id (sm_cache sm)\<rparr>)"
| "sm_touch T sm (Checkpoint st) chunk seg = sm"

definition sm_apply ::
  "('l::linorder, 'p, 'v::order) raft_types \<Rightarrow> ('l, 'p, 'v, 'u, 'c, 'g) state_machine
     \<Rightarrow> ('l, 'p, 'v, 'u) raft_record \<Rightarrow> 'c \<Rightarrow> 'g
     \<Rightarrow> (unit, ('l, 'v) state_error) outcome \<times> ('l, 'p, 'v, 'u, 'c, 'g) state_machine" where
  "sm_apply T sm rec chunk seg =
     (let touched = sm_touch T sm rec chunk seg;
          applied = state_apply T (sm_state touched) rec
      in (fst applied, touched\<lparr>sm_state := snd applied\<rparr>))"

definition sm_checkpoint ::
  "('l, 'p, 'v, 'u, 'c, 'g) state_machine \<Rightarrow> ('l, 'v, 'u) raft_log_state" where
  "sm_checkpoint sm = sm_state sm"

section \<open>The invariant\<close>

abbreviation entry_id :: "'k \<times> ('l, 'c, 'g) log_data \<Rightarrow> 'l" where
  "entry_id e \<equiv> ld_log_id (snd e)"

definition log_wf ::
  "('l::linorder, 'p, 'v) raft_types \<Rightarrow> (u64, ('l, 'c, 'g) log_data) btree_map \<Rightarrow> bool" where
  "log_wf T m \<longleftrightarrow>
     bt_wf m \<and> successively (\<lambda>a b. fst b = fst a + 1) m
     \<and> sorted_wrt (\<lambda>a b. entry_id a < entry_id b) m
     \<and> (\<forall>e \<in> set m. fst e = log_index T (entry_id e) \<and> fst e \<noteq> - 1)"

definition sm_inv ::
  "('l::linorder, 'p, 'v) raft_types \<Rightarrow> ('l, 'p, 'v, 'u, 'c, 'g) state_machine \<Rightarrow> bool" where
  "sm_inv T sm \<longleftrightarrow>
     log_wf T (sm_log sm)
     \<and> has_next T (st_last (sm_state sm)) \<and> has_next T (st_purged (sm_state sm))
     \<and> (if sm_log sm = [] then st_last (sm_state sm) = st_purged (sm_state sm)
        else st_last (sm_state sm) = Some (entry_id (last (sm_log sm)))
          \<and> (\<forall>p. st_purged (sm_state sm) = Some p \<longrightarrow>
                p < entry_id (hd (sm_log sm)) \<and> fst (hd (sm_log sm)) = log_index T p + 1))"

text \<open>
  What a record must say to fit a state machine: an appended index has a successor, a
  truncation keeps up to the purge position or to an entry of the log, a purge names an
  entry of the log, a position past the whole log, or one that is already purged, and a
  checkpoint describes the log it is stored over.
\<close>

definition truncate_point ::
  "('l, 'p, 'v, 'u, 'c, 'g) state_machine \<Rightarrow> 'l option \<Rightarrow> bool" where
  "truncate_point sm keep \<longleftrightarrow>
     keep = st_purged (sm_state sm) \<or> (\<exists>e \<in> set (sm_log sm). keep = Some (entry_id e))"

definition past_log ::
  "('l::linorder, 'p, 'v) raft_types \<Rightarrow> ('l, 'v, 'u) raft_log_state \<Rightarrow> 'l \<Rightarrow> bool" where
  "past_log T s l \<longleftrightarrow>
     st_last s < Some l \<and> log_index T l \<noteq> - 1
     \<and> (case st_last s of None \<Rightarrow> True | Some k \<Rightarrow> log_index T k \<le> log_index T l)"

definition already_purged ::
  "('l::linorder, 'p, 'v) raft_types \<Rightarrow> ('l, 'v, 'u) raft_log_state \<Rightarrow> 'l \<Rightarrow> bool" where
  "already_purged T s l \<longleftrightarrow>
     (case st_purged s of
        None \<Rightarrow> False
      | Some p \<Rightarrow> l \<le> p \<and> log_index T l \<le> log_index T p)"

definition purge_point ::
  "('l::linorder, 'p, 'v) raft_types \<Rightarrow> ('l, 'p, 'v, 'u, 'c, 'g) state_machine \<Rightarrow> 'l \<Rightarrow> bool"
where
  "purge_point T sm l \<longleftrightarrow>
     (\<exists>e \<in> set (sm_log sm). l = entry_id e) \<or> past_log T (sm_state sm) l
     \<or> already_purged T (sm_state sm) l"

definition checkpoint_point ::
  "('l::linorder, 'p, 'v) raft_types \<Rightarrow> ('l, 'p, 'v, 'u, 'c, 'g) state_machine
     \<Rightarrow> ('l, 'v, 'u) raft_log_state \<Rightarrow> bool" where
  "checkpoint_point T sm st \<longleftrightarrow>
     has_next T (st_last st) \<and> has_next T (st_purged st) \<and>
     (st_last st = st_last (sm_state sm) \<and> st_purged st = st_purged (sm_state sm)
      \<or> (if sm_log sm = [] then st_last st = st_purged st
         else check_checkpoint T sm st = Ok ()))"

fun record_fits ::
  "('l::linorder, 'p, 'v) raft_types \<Rightarrow> ('l, 'p, 'v, 'u, 'c, 'g) state_machine
     \<Rightarrow> ('l, 'p, 'v, 'u) raft_record \<Rightarrow> bool" where
  "record_fits T sm (Action (Append l p)) = has_next T (Some l)"
| "record_fits T sm (Action (TruncateAfter keep)) = truncate_point sm keep"
| "record_fits T sm (Action (PurgeUpto l)) = purge_point T sm l"
| "record_fits T sm (Checkpoint st) = checkpoint_point T sm st"
| "record_fits T sm (Action a) = True"

subsection \<open>The log map under the two cuts\<close>

lemma log_wf_Nil [simp]: "log_wf T []"
  by (simp add: log_wf_def)

lemma log_wf_append:
  "log_wf T (m @ n) \<longleftrightarrow>
     log_wf T m \<and> log_wf T n
     \<and> (\<forall>a \<in> set m. \<forall>b \<in> set n. fst a < fst b \<and> entry_id a < entry_id b)
     \<and> (m \<noteq> [] \<longrightarrow> n \<noteq> [] \<longrightarrow> fst (hd n) = fst (last m) + 1)"
  by (auto simp: log_wf_def btree_simps successively_append_iff sorted_wrt_append)

lemma log_wf_single:
  "log_wf T [e] \<longleftrightarrow> fst e = log_index T (entry_id e) \<and> fst e \<noteq> - 1"
  by (simp add: log_wf_def bt_wf_def)

lemma log_wf_bt_wf: "log_wf T m \<Longrightarrow> bt_wf m"
  by (simp add: log_wf_def)

lemma log_wf_key: "log_wf T m \<Longrightarrow> e \<in> set m \<Longrightarrow> fst e = log_index T (entry_id e) \<and> fst e \<noteq> - 1"
  unfolding log_wf_def by blast

lemma log_wf_below: "log_wf T m \<Longrightarrow> log_wf T (bt_below k m)"
  using bt_below_from [of m k] log_wf_append [of T "bt_below k m" "bt_from k m"]
  by (simp add: log_wf_bt_wf)

lemma log_wf_from: "log_wf T m \<Longrightarrow> log_wf T (bt_from k m)"
  using bt_below_from [of m k] log_wf_append [of T "bt_below k m" "bt_from k m"]
  by (simp add: log_wf_bt_wf)

lemma below_middle:
  assumes "log_wf T (xs @ e # ys)"
  shows "bt_below (fst e + 1) (xs @ e # ys) = xs @ [e]"
    and "bt_from (fst e + 1) (xs @ e # ys) = ys"
proof -
  from log_wf_bt_wf [OF assms] have xs: "\<forall>x \<in> set xs. fst x \<le> fst e"
    and ys: "\<forall>y \<in> set ys. fst e < fst y"
    by (auto simp: btree_simps order_less_imp_le)
  have "e \<in> set (xs @ e # ys)" by simp
  with log_wf_key [OF assms] have e: "fst e \<noteq> - 1" by blast
  from xs ys show "bt_below (fst e + 1) (xs @ e # ys) = xs @ [e]"
    by (auto simp: bt_below_def less_add_one_iff [OF e] filter_empty_conv not_le filter_id_conv)
  from xs ys show "bt_from (fst e + 1) (xs @ e # ys) = ys"
    by (auto simp: bt_from_def add_one_le_iff [OF e] filter_empty_conv not_less filter_id_conv)
qed

lemma below_first: "bt_wf m \<Longrightarrow> m = [] \<or> k \<le> fst (hd m) \<Longrightarrow> bt_below k m = []"
  by (fastforce simp: bt_below_def filter_empty_conv not_less dest: bt_wf_hd)

lemma from_first: "bt_wf m \<Longrightarrow> m = [] \<or> k \<le> fst (hd m) \<Longrightarrow> bt_from k m = m"
  using bt_below_from [of m k] below_first [of m k] by simp

lemma from_last:
  "bt_wf m \<Longrightarrow> m = [] \<or> fst (last m) < k \<Longrightarrow> bt_from k m = []"
  by (fastforce simp: bt_from_def filter_empty_conv not_le dest: bt_wf_last)

text \<open>Every entry lies between the purge position and \<open>last\<close>.\<close>

lemma sorted_ids_hd: "log_wf T m \<Longrightarrow> e \<in> set m \<Longrightarrow> entry_id (hd m) \<le> entry_id e"
  by (cases m) (auto simp: log_wf_def order_less_imp_le)

lemma sorted_ids_last: "log_wf T m \<Longrightarrow> e \<in> set m \<Longrightarrow> entry_id e \<le> entry_id (last m)"
  by (cases m rule: rev_cases) (auto simp: log_wf_def sorted_wrt_append order_less_imp_le)

lemma sm_inv_bounds:
  assumes "sm_inv T sm" and "e \<in> set (sm_log sm)"
  shows "st_purged (sm_state sm) < Some (entry_id e)"
    and "Some (entry_id e) \<le> st_last (sm_state sm)"
proof -
  from assms have wf: "log_wf T (sm_log sm)" and ne: "sm_log sm \<noteq> []"
    by (auto simp: sm_inv_def)
  show "st_purged (sm_state sm) < Some (entry_id e)"
    using assms ne sorted_ids_hd [OF wf assms(2)]
    by (cases "st_purged (sm_state sm)") (auto simp: sm_inv_def)
  show "Some (entry_id e) \<le> st_last (sm_state sm)"
    using assms ne sorted_ids_last [OF wf assms(2)] by (auto simp: sm_inv_def)
qed

lemma sm_inv_purged_le_last:
  assumes "sm_inv T sm"
  shows "st_purged (sm_state sm) \<le> st_last (sm_state sm)"
proof (cases "sm_log sm = []")
  case True
  with assms show ?thesis by (simp add: sm_inv_def)
next
  case False
  then have "hd (sm_log sm) \<in> set (sm_log sm)" by simp
  from sm_inv_bounds [OF assms this] show ?thesis by simp
qed

subsection \<open>Each accepted record keeps the invariant\<close>

lemma sm_apply_accepted:
  "sm_check T sm rec = Ok () \<Longrightarrow>
     sm_apply T sm rec c g =
       (Ok (), (sm_touch T sm rec c g)\<lparr>sm_state := state_effect (sm_state sm) rec\<rparr>)"
proof -
  have "sm_state (sm_touch T sm rec c g) = sm_state sm"
    by (cases "(T, sm, rec, c, g)" rule: sm_touch.cases) (auto simp: Let_def)
  then show "sm_check T sm rec = Ok () \<Longrightarrow> ?thesis"
    by (simp add: sm_apply_def sm_check_def state_apply_Ok)
qed

lemma append_above:
  assumes inv: "sm_inv T sm" and check: "check_append T (sm_state sm) l = Ok ()"
    and x: "x \<in> set (sm_log sm)"
  shows "fst x < log_index T l \<and> entry_id x < l"
proof -
  let ?m = "sm_log sm"
  have wf: "log_wf T ?m" using inv by (simp add: sm_inv_def)
  from x have ne: "?m \<noteq> []" by auto
  then have last: "st_last (sm_state sm) = Some (entry_id (last ?m))"
    using inv by (simp add: sm_inv_def)
  have key: "fst (last ?m) = log_index T (entry_id (last ?m))" "fst (last ?m) \<noteq> - 1"
    using log_wf_key [OF wf last_in_set [OF ne]] by auto
  have "log_index T l = fst (last ?m) + 1" "entry_id (last ?m) < l"
    using check last key(1) by (auto simp: check_append_Ok)
  then show ?thesis
    using key(2) bt_wf_last [OF log_wf_bt_wf [OF wf] x] sorted_ids_last [OF wf x]
    by (auto simp: less_add_one_iff)
qed

lemma append_at_end:
  assumes "sm_inv T sm" and "check_append T (sm_state sm) l = Ok ()"
  shows "bt_insert (log_index T l) d (sm_log sm) = sm_log sm @ [(log_index T l, d)]"
  by (rule bt_insert_above) (use append_above [OF assms] in blast)

lemma inv_append:
  assumes inv: "sm_inv T sm" and check: "check_append T (sm_state sm) l = Ok ()"
    and nxt: "has_next T (Some l)"
  shows "sm_inv T (sm\<lparr>sm_log := bt_insert (log_index T l) \<lparr>ld_log_id = l, ld_chunk_id = c,
      ld_segment = g\<rparr> (sm_log sm), sm_cache := pc, sm_state := (sm_state sm)\<lparr>st_last := Some l\<rparr>\<rparr>)"
proof -
  let ?e = "(log_index T l, \<lparr>ld_log_id = l, ld_chunk_id = c, ld_segment = g\<rparr>)"
  let ?m = "sm_log sm"
  have wf: "log_wf T ?m" using inv by (simp add: sm_inv_def)
  have next_key: "?m \<noteq> [] \<longrightarrow> log_index T l = fst (last ?m) + 1"
    using check inv log_wf_key [OF wf last_in_set] by (auto simp: check_append_Ok sm_inv_def)
  have "log_wf T (?m @ [?e])"
    unfolding log_wf_append using wf append_above [OF inv check] nxt next_key
    by (simp add: log_wf_single)
  moreover have "p < entry_id (hd (?m @ [?e])) \<and> fst (hd (?m @ [?e])) = log_index T p + 1"
    if "st_purged (sm_state sm) = Some p" for p
    using that inv check by (cases "?m = []") (auto simp: sm_inv_def check_append_Ok)
  ultimately show ?thesis
    using append_at_end [OF inv check] inv nxt by (simp add: sm_inv_def)
qed

lemma inv_truncate:
  assumes inv: "sm_inv T sm" and pt: "truncate_point sm keep"
  shows "sm_inv T (sm\<lparr>sm_log := bt_below (next_log_index T keep) (sm_log sm), sm_cache := pc,
      sm_state := state_truncate_after (sm_state sm) keep\<rparr>)"
  using pt unfolding truncate_point_def
proof
  assume keep: "keep = st_purged (sm_state sm)"
  have wf: "log_wf T (sm_log sm)" using inv by (simp add: sm_inv_def)
  have "sm_log sm = [] \<or> next_log_index T keep \<le> fst (hd (sm_log sm))"
    using inv keep
    by (cases "st_purged (sm_state sm)") (auto simp: sm_inv_def split: if_splits)
  then have "bt_below (next_log_index T keep) (sm_log sm) = []"
    using below_first [OF log_wf_bt_wf [OF wf]] by blast
  moreover have "min (st_last (sm_state sm)) keep = keep"
    using sm_inv_purged_le_last [OF inv] keep by (simp add: min_absorb2)
  ultimately show ?thesis using inv keep by (simp add: sm_inv_def)
next
  assume "\<exists>e \<in> set (sm_log sm). keep = Some (entry_id e)"
  then obtain e xs ys where e: "e \<in> set (sm_log sm)" "keep = Some (entry_id e)"
    and split: "sm_log sm = xs @ e # ys"
    by (auto simp: in_set_conv_decomp)
  have wf: "log_wf T (xs @ e # ys)" using inv split by (simp add: sm_inv_def)
  have key: "fst e = log_index T (entry_id e)" "fst e \<noteq> - 1"
    using log_wf_key [OF wf, of e] by auto
  then have cut: "bt_below (next_log_index T keep) (sm_log sm) = xs @ [e]"
    using below_middle(1) [OF wf] e(2) split by simp
  have "log_wf T ((xs @ [e]) @ ys)" using wf by simp
  then have "log_wf T (xs @ [e])" unfolding log_wf_append by blast
  moreover have "min (st_last (sm_state sm)) keep = keep"
    using sm_inv_bounds(2) [OF inv e(1)] e(2) by (simp add: min_absorb2)
  moreover have "hd (xs @ [e]) = hd (sm_log sm)" using split by (cases xs) auto
  ultimately show ?thesis
    using inv e(2) cut key split by (auto simp: sm_inv_def)
qed

lemma inv_purge_entry:
  assumes inv: "sm_inv T sm" and mem: "e \<in> set (sm_log sm)"
  shows "sm_inv T (sm\<lparr>sm_log := bt_from (log_index T (entry_id e) + 1) (sm_log sm),
      sm_cache := pc, sm_state := state_purge (sm_state sm) (entry_id e)\<rparr>)"
proof -
  obtain xs ys where split: "sm_log sm = xs @ e # ys"
    using mem by (auto simp: in_set_conv_decomp)
  have wf: "log_wf T (xs @ e # ys)" using inv split by (simp add: sm_inv_def)
  have key: "log_index T (entry_id e) = fst e" "log_index T (entry_id e) \<noteq> - 1"
    using log_wf_key [OF wf, of e] by auto
  have cut: "bt_from (log_index T (entry_id e) + 1) (sm_log sm) = ys"
    using below_middle(2) [OF wf] key split by simp
  have "log_wf T ((xs @ [e]) @ ys)" using wf by simp
  then have ys: "log_wf T ys" and above: "ys \<noteq> [] \<longrightarrow> entry_id e < entry_id (hd ys)"
    and nxt: "ys \<noteq> [] \<longrightarrow> fst (hd ys) = fst e + 1"
    unfolding log_wf_append by auto
  have last: "st_last (sm_state sm) = Some (entry_id (last (e # ys)))"
    using inv split by (simp add: sm_inv_def)
  have "max (st_last (sm_state sm)) (Some (entry_id e)) = st_last (sm_state sm)"
    using sm_inv_bounds(2) [OF inv mem] by (simp add: max_absorb1)
  moreover have "max (st_purged (sm_state sm)) (Some (entry_id e)) = Some (entry_id e)"
    using sm_inv_bounds(1) [OF inv mem] by (simp add: max_absorb2 order_less_imp_le)
  ultimately show ?thesis
    using inv cut ys above nxt last key by (auto simp: sm_inv_def)
qed

lemma inv_purge_past:
  assumes inv: "sm_inv T sm" and past: "past_log T (sm_state sm) l"
  shows "sm_inv T (sm\<lparr>sm_log := bt_from (log_index T l + 1) (sm_log sm),
      sm_cache := pc, sm_state := state_purge (sm_state sm) l\<rparr>)"
proof -
  let ?m = "sm_log sm"
  have wf: "log_wf T ?m" using inv by (simp add: sm_inv_def)
  have l: "log_index T l \<noteq> - 1" and less: "st_last (sm_state sm) < Some l"
    using past by (auto simp: past_log_def)
  have "fst (last ?m) < log_index T l + 1" if "?m \<noteq> []"
  proof -
    have "fst (last ?m) = log_index T (entry_id (last ?m))"
      using log_wf_key [OF wf last_in_set [OF that]] by simp
    moreover have "log_index T (entry_id (last ?m)) \<le> log_index T l"
      using inv past that by (simp add: sm_inv_def past_log_def)
    ultimately show ?thesis by (simp add: less_add_one_iff [OF l])
  qed
  then have "bt_from (log_index T l + 1) ?m = []"
    using from_last [OF log_wf_bt_wf [OF wf]] by blast
  moreover have "max (st_last (sm_state sm)) (Some l) = Some l"
    using less by (simp add: max_absorb2 order_less_imp_le)
  moreover have "max (st_purged (sm_state sm)) (Some l) = Some l"
    using less sm_inv_purged_le_last [OF inv] by (simp add: max_absorb2 order_less_imp_le)
  ultimately show ?thesis using inv l by (simp add: sm_inv_def)
qed

lemma purged_keeps_log:
  assumes inv: "sm_inv T sm" and again: "already_purged T (sm_state sm) l"
  shows "bt_from (log_index T l + 1) (sm_log sm) = sm_log sm"
proof -
  obtain p where p: "st_purged (sm_state sm) = Some p" "log_index T l \<le> log_index T p"
    using again by (auto simp: already_purged_def split: option.splits)
  have wf: "log_wf T (sm_log sm)" using inv by (simp add: sm_inv_def)
  have "log_index T p \<noteq> - 1" using inv p(1) by (simp add: sm_inv_def)
  then have le: "log_index T l + 1 \<le> log_index T p + 1"
    using p(2) by (intro add_one_mono)
  have "sm_log sm = [] \<or> log_index T l + 1 \<le> fst (hd (sm_log sm))"
    using inv p(1) le by (auto simp: sm_inv_def split: if_splits)
  then show ?thesis using from_first [OF log_wf_bt_wf [OF wf]] by blast
qed

lemma inv_purge_again:
  assumes inv: "sm_inv T sm" and again: "already_purged T (sm_state sm) l"
  shows "sm_inv T (sm\<lparr>sm_log := bt_from (log_index T l + 1) (sm_log sm),
      sm_cache := pc, sm_state := state_purge (sm_state sm) l\<rparr>)"
proof -
  have "Some l \<le> st_purged (sm_state sm)"
    using again by (auto simp: already_purged_def split: option.splits)
  from this order_trans [OF this sm_inv_purged_le_last [OF inv]]
  have "state_purge (sm_state sm) l = sm_state sm"
    by (simp add: state_purge_def Let_def not_less [symmetric])
  then show ?thesis
    using inv purged_keeps_log [OF inv again] by (simp add: sm_inv_def)
qed

lemma check_checkpoint_Ok:
  assumes "sm_log sm \<noteq> []"
  shows "check_checkpoint T sm st = Ok () \<longleftrightarrow>
     log_index T (entry_id (hd (sm_log sm))) = next_log_index T (st_purged st)
     \<and> st_purged st < Some (entry_id (hd (sm_log sm)))
     \<and> st_last st = Some (entry_id (last (sm_log sm)))"
  using assms by (cases "sm_log sm"; cases "hd (sm_log sm)"; cases "last (sm_log sm)")
    (auto simp: check_checkpoint_def bt_first_def bt_last_def Let_def split: prod.splits)

lemma inv_checkpoint:
  assumes inv: "sm_inv T sm" and pt: "checkpoint_point T sm st"
  shows "sm_inv T (sm\<lparr>sm_state := st\<rparr>)"
proof (cases "sm_log sm = [] \<or> st_last st = st_last (sm_state sm) \<and> st_purged st = st_purged (sm_state sm)")
  case True
  with assms show ?thesis by (auto simp: sm_inv_def checkpoint_point_def split: if_splits)
next
  case False
  have wf: "log_wf T (sm_log sm)" using inv by (simp add: sm_inv_def)
  from False have "fst (hd (sm_log sm)) = log_index T (entry_id (hd (sm_log sm)))"
    using log_wf_key [OF wf hd_in_set] by simp
  with False pt inv show ?thesis
    by (auto simp: sm_inv_def checkpoint_point_def check_checkpoint_Ok)
qed

section \<open>Runs of the state machine\<close>

text \<open>
  A record reaches the live state machine with its place in the WAL, and only when the check
  accepts it. \<open>sm_keeps\<close> is what must never be lost on the way: a committed entry stays in
  the log map, with its data, until it is purged.
\<close>

definition sm_step ::
  "('l::linorder, 'p, 'v::order) raft_types \<Rightarrow> ('l, 'p, 'v, 'u, 'c, 'g) state_machine
     \<Rightarrow> ('l, 'p, 'v, 'u) raft_record \<times> 'c \<times> 'g \<Rightarrow> ('l, 'p, 'v, 'u, 'c, 'g) state_machine" where
  "sm_step T sm i =
     (case i of (rec, c, g) \<Rightarrow>
        if is_ok (sm_check T sm rec) then snd (sm_apply T sm rec c g) else sm)"

definition sm_keeps ::
  "('l::linorder, 'p, 'v, 'u, 'c, 'g) state_machine \<Rightarrow> ('l, 'p, 'v, 'u, 'c, 'g) state_machine
     \<Rightarrow> bool" where
  "sm_keeps sm sm' \<longleftrightarrow>
     st_committed (sm_state sm) \<le> st_committed (sm_state sm')
     \<and> st_purged (sm_state sm) \<le> st_purged (sm_state sm')
     \<and> (\<forall>e \<in> set (sm_log sm). Some (entry_id e) \<le> st_committed (sm_state sm) \<longrightarrow>
           e \<in> set (sm_log sm') \<or> Some (entry_id e) \<le> st_purged (sm_state sm'))"

definition step_fits ::
  "('l::linorder, 'p, 'v) raft_types \<Rightarrow> ('l, 'p, 'v, 'u, 'c, 'g) state_machine
     \<Rightarrow> ('l, 'p, 'v, 'u) raft_record \<times> 'c \<times> 'g \<Rightarrow> bool" where
  "step_fits T sm i =
     (record_fits T sm (fst i) \<and>
      (case fst i of
         Action _ \<Rightarrow> True
       | Checkpoint st \<Rightarrow>
           st_committed (sm_state sm) \<le> st_committed st
           \<and> st_purged (sm_state sm) \<le> st_purged st))"

lemma sm_step_rejected: "\<not> is_ok (sm_check T sm rec) \<Longrightarrow> sm_step T sm (rec, c, g) = sm"
  by (simp add: sm_step_def)

lemma sm_step_accepted:
  "sm_check T sm rec = Ok () \<Longrightarrow>
     sm_step T sm (rec, c, g) =
       (sm_touch T sm rec c g)\<lparr>sm_state := state_effect (sm_state sm) rec\<rparr>"
  by (simp add: sm_step_def sm_apply_accepted)

lemma sm_inv_frame:
  assumes "sm_inv T sm" and "sm_log sm' = sm_log sm"
    and "st_last (sm_state sm') = st_last (sm_state sm)"
    and "st_purged (sm_state sm') = st_purged (sm_state sm)"
  shows "sm_inv T sm'"
  using assms unfolding sm_inv_def by presburger

lemma accepted_inv:
  assumes inv: "sm_inv T sm" and fits: "record_fits T sm rec"
    and check: "sm_check T sm rec = Ok ()"
  shows "sm_inv T ((sm_touch T sm rec c g)\<lparr>sm_state := state_effect (sm_state sm) rec\<rparr>)"
proof (cases rec)
  case (Checkpoint st)
  with inv fits show ?thesis by (simp add: inv_checkpoint)
next
  case (Action a)
  show ?thesis
  proof (cases a)
    case (PurgeUpto l)
    with Action inv fits show ?thesis
      using inv_purge_entry [of T sm _ "cache_purge_upto T l (sm_cache sm)"]
        inv_purge_past [of T sm l "cache_purge_upto T l (sm_cache sm)"]
        inv_purge_again [of T sm l "cache_purge_upto T l (sm_cache sm)"]
      by (auto simp: purge_point_def bt_split_off_def)
  next
    case (Append l p)
    with Action check fits inv_append [OF inv, where l = l] show ?thesis
      by (simp add: sm_check_def)
  next
    case (TruncateAfter keep)
    with Action fits inv_truncate [OF inv, where keep = keep] show ?thesis
      by (simp add: bt_split_off_def Let_def)
  next
    case (SaveVote v)
    show ?thesis by (rule sm_inv_frame [OF inv]) (simp_all add: Action SaveVote)
  next
    case (Commit l)
    show ?thesis by (rule sm_inv_frame [OF inv]) (simp_all add: Action Commit)
  qed
qed

text \<open>What the two cuts remove lies above the kept position, or at or below the purged one.\<close>

lemma truncate_removes:
  assumes inv: "sm_inv T sm" and pt: "truncate_point sm keep" and e: "e \<in> set (sm_log sm)"
    and gone: "e \<notin> set (bt_below (next_log_index T keep) (sm_log sm))"
  shows "keep < Some (entry_id e)"
proof -
  have wf: "log_wf T (sm_log sm)" using inv by (simp add: sm_inv_def)
  have key: "fst e = log_index T (entry_id e)" using log_wf_key [OF wf e] by simp
  from pt show ?thesis unfolding truncate_point_def
  proof
    assume "keep = st_purged (sm_state sm)"
    with sm_inv_bounds(1) [OF inv e] show ?thesis by simp
  next
    assume "\<exists>k \<in> set (sm_log sm). keep = Some (entry_id k)"
    then obtain k xs ys where k: "keep = Some (entry_id k)" "sm_log sm = xs @ k # ys"
      by (auto simp: in_set_conv_decomp)
    have wf2: "log_wf T (xs @ k # ys)" using wf k(2) by simp
    then have "log_index T (entry_id k) = fst k" using log_wf_key [OF wf2, of k] by simp
    then have "e \<notin> set (xs @ [k])" using gone below_middle(1) [OF wf2] k by simp
    then have "e \<in> set ys" using e k(2) by auto
    moreover have "log_wf T ((xs @ [k]) @ ys)" using wf2 by simp
    ultimately have "entry_id k < entry_id e" unfolding log_wf_append by auto
    then show ?thesis using k(1) by simp
  qed
qed

lemma purge_removes:
  assumes inv: "sm_inv T sm" and pt: "purge_point T sm l" and e: "e \<in> set (sm_log sm)"
    and gone: "e \<notin> set (bt_from (log_index T l + 1) (sm_log sm))"
  shows "entry_id e \<le> l"
proof -
  have wf: "log_wf T (sm_log sm)" using inv by (simp add: sm_inv_def)
  have key: "fst e = log_index T (entry_id e)" using log_wf_key [OF wf e] by simp
  from pt show ?thesis unfolding purge_point_def
  proof (elim disjE)
    assume "\<exists>k \<in> set (sm_log sm). l = entry_id k"
    then obtain k xs ys where k: "l = entry_id k" "sm_log sm = xs @ k # ys"
      by (auto simp: in_set_conv_decomp)
    have wf2: "log_wf T (xs @ k # ys)" using wf k(2) by simp
    then have "log_index T (entry_id k) = fst k" using log_wf_key [OF wf2, of k] by simp
    then have "e \<notin> set ys" using gone below_middle(2) [OF wf2] k by simp
    then have "e \<in> set (xs @ [k])" using e k(2) by auto
    moreover have "log_wf T (xs @ [k])" using wf2 log_wf_append [of T "xs @ [k]" ys] by simp
    ultimately show ?thesis using sorted_ids_last [of T "xs @ [k]" e] k(1) by simp
  next
    assume "past_log T (sm_state sm) l"
    then have "st_last (sm_state sm) < Some l" by (simp add: past_log_def)
    from order.strict_trans1 [OF sm_inv_bounds(2) [OF inv e] this] show ?thesis by simp
  next
    assume "already_purged T (sm_state sm) l"
    then have "e \<in> set (bt_from (log_index T l + 1) (sm_log sm))"
      using purged_keeps_log [OF inv] e by simp
    with gone show ?thesis by blast
  qed
qed

lemma append_keeps_entries: "e \<in> set m \<Longrightarrow> fst e \<noteq> k \<Longrightarrow> e \<in> set (bt_insert k d m)"
  by (induction m) auto

lemma accepted_keeps:
  assumes inv: "sm_inv T sm" and fits: "step_fits T sm (rec, c, g)"
    and check: "sm_check T sm rec = Ok ()"
  shows "sm_keeps sm ((sm_touch T sm rec c g)\<lparr>sm_state := state_effect (sm_state sm) rec\<rparr>)"
proof (cases rec)
  case (Checkpoint st)
  with fits show ?thesis by (simp add: sm_keeps_def step_fits_def)
next
  case (Action a)
  show ?thesis
  proof (cases a)
    case (Append l p)
    have "check_append T (sm_state sm) l = Ok ()"
      using check Action Append by (simp add: sm_check_def)
    from append_at_end [OF inv this] show ?thesis by (simp add: Action Append sm_keeps_def)
  next
    case (TruncateAfter keep)
    have pt: "truncate_point sm keep" and com: "st_committed (sm_state sm) \<le> keep"
      using fits check Action TruncateAfter
      by (simp_all add: step_fits_def sm_check_def check_truncate_Ok)
    have "e \<in> set (bt_below (next_log_index T keep) (sm_log sm))"
      if "e \<in> set (sm_log sm)" "Some (entry_id e) \<le> st_committed (sm_state sm)" for e
      using truncate_removes [OF inv pt that(1)] order_trans [OF that(2) com] by fastforce
    then show ?thesis
      by (simp add: Action TruncateAfter sm_keeps_def bt_split_off_def Let_def)
  next
    case (PurgeUpto l)
    have pt: "purge_point T sm l" using fits Action PurgeUpto by (simp add: step_fits_def)
    show ?thesis
      using purge_removes [OF inv pt]
      by (auto simp: Action PurgeUpto sm_keeps_def bt_split_off_def Let_def le_max_iff_disj)
  next
    case (Commit l)
    with Action check show ?thesis by (simp add: sm_keeps_def sm_check_def check_commit_Ok)
  qed (simp add: Action sm_keeps_def)
qed

lemma sm_keeps_trans: "sm_keeps s t \<Longrightarrow> sm_keeps t u \<Longrightarrow> sm_keeps s u"
  unfolding sm_keeps_def by (meson order_trans)

lemma sm_check_cases:
  obtains "sm_check T sm rec = Ok ()" | "\<not> is_ok (sm_check T sm rec)"
  by (cases "sm_check T sm rec") auto

lemma sm_step_inv: "sm_inv T sm \<Longrightarrow> record_fits T sm (fst i) \<Longrightarrow> sm_inv T (sm_step T sm i)"
  by (cases i; cases rule: sm_check_cases [of T sm "fst i"])
    (simp_all add: sm_step_rejected sm_step_accepted accepted_inv)

lemma step_keeps: "sm_inv T sm \<Longrightarrow> step_fits T sm i \<Longrightarrow> sm_keeps sm (sm_step T sm i)"
  by (cases i; cases rule: sm_check_cases [of T sm "fst i"])
    (simp_all add: sm_step_rejected sm_step_accepted accepted_keeps, simp add: sm_keeps_def)

interpretation sm: progress_machine "sm_step T" "step_fits T" "sm_inv T" sm_keeps
  for T :: "('l::linorder, 'p, 'v::order) raft_types"
  by unfold_locales
    (simp add: step_fits_def sm_step_inv, erule (1) step_keeps, simp add: sm_keeps_def,
      erule (1) sm_keeps_trans)

lemma sm_new_inv: "sm_inv T (sm_new cfg)"
  by (simp add: sm_inv_def sm_new_def default_state_def)

section \<open>Replay\<close>

text \<open>
  On opening, the WAL feeds every stored record, in order, to \<open>apply\<close> and stops at the
  first error.
\<close>

fun sm_replay ::
  "('l::linorder, 'p, 'v::order) raft_types \<Rightarrow> ('l, 'p, 'v, 'u, 'c, 'g) state_machine
     \<Rightarrow> (('l, 'p, 'v, 'u) raft_record \<times> 'c \<times> 'g) list
     \<Rightarrow> (unit, ('l, 'v) state_error) outcome \<times> ('l, 'p, 'v, 'u, 'c, 'g) state_machine" where
  "sm_replay T sm [] = (Ok (), sm)"
| "sm_replay T sm ((rec, c, g) # rs) =
     (case sm_apply T sm rec c g of
        (Ok _, sm') \<Rightarrow> sm_replay T sm' rs
      | (Err e, sm') \<Rightarrow> (Err e, sm')
      | (Panic, sm') \<Rightarrow> (Panic, sm'))"

lemma sm_replay_append:
  "sm_replay T sm (xs @ ys) =
     (case sm_replay T sm xs of
        (Ok _, sm') \<Rightarrow> sm_replay T sm' ys
      | (Err e, sm') \<Rightarrow> (Err e, sm')
      | (Panic, sm') \<Rightarrow> (Panic, sm'))"
  by (induction xs arbitrary: sm) (auto split: prod.splits outcome.splits)

text \<open>
  The map of a suffix replay against the map of the full run: the same entries, but for
  entries at or below \<open>L\<close>, the end of the part of the WAL that is gone.
\<close>

definition tail_of ::
  "'l option \<Rightarrow> ('l::linorder, 'p, 'v, 'u, 'c, 'g) state_machine
     \<Rightarrow> ('l, 'p, 'v, 'u, 'c, 'g) state_machine \<Rightarrow> bool" where
  "tail_of L sm' sm \<longleftrightarrow>
     sm_state sm' = sm_state sm \<and> bt_wf (sm_log sm') \<and> bt_wf (sm_log sm)
     \<and> (\<forall>k. bt_get (sm_log sm') k = bt_get (sm_log sm) k
          \<or> bt_get (sm_log sm') k = None
            \<and> (\<exists>d. bt_get (sm_log sm) k = Some d \<and> Some (ld_log_id d) \<le> L))"

lemma sm_touch_state [simp]: "sm_state (sm_touch T sm rec c g) = sm_state sm"
  by (cases "(T, sm, rec, c, g)" rule: sm_touch.cases) (auto simp: Let_def)

lemma touch_tail: "tail_of L sm' sm \<Longrightarrow> tail_of L (sm_touch T sm' rec c g) (sm_touch T sm rec c g)"
  by (cases "(T, sm, rec, c, g)" rule: sm_touch.cases)
    (auto simp: tail_of_def Let_def bt_split_off_def bt_wf_insert bt_get_insert bt_get_below
      bt_get_from)

lemma apply_tail:
  assumes "tail_of L sm' sm"
  shows "fst (sm_apply T sm' rec c g) = fst (sm_apply T sm rec c g)
     \<and> tail_of L (snd (sm_apply T sm' rec c g)) (snd (sm_apply T sm rec c g))"
proof -
  have "sm_state sm' = sm_state sm" using assms by (simp add: tail_of_def)
  with touch_tail [OF assms, of T rec c g] show ?thesis
    by (simp add: sm_apply_def Let_def) (simp add: tail_of_def)
qed

lemma replay_tail:
  assumes "tail_of L sm' sm" and "sm_replay T sm rs = (Ok (), res)"
  obtains res' where "sm_replay T sm' rs = (Ok (), res')" and "tail_of L res' res"
  using assms
proof (induction rs arbitrary: sm sm' thesis)
  case Nil
  then show ?case by simp
next
  case (Cons r rs)
  obtain rec c g where r: "r = (rec, c, g)" by (cases r)
  from Cons.prems(3) r obtain sm1 where
    one: "sm_apply T sm rec c g = (Ok (), sm1)" and rest: "sm_replay T sm1 rs = (Ok (), res)"
    by (auto split: prod.splits outcome.splits)
  obtain sm1' where one': "sm_apply T sm' rec c g = (Ok (), sm1')" and tail: "tail_of L sm1' sm1"
    using apply_tail [OF Cons.prems(2), of T rec c g] one by (cases "sm_apply T sm' rec c g") auto
  from Cons.IH [OF _ tail rest] obtain res' where
    "sm_replay T sm1' rs = (Ok (), res')" "tail_of L res' res" by blast
  with Cons.prems(1) one' r show ?case by simp
qed

lemma tail_ends:
  assumes tail: "tail_of L sm' sm" and inv: "sm_inv T sm" and L: "L \<le> st_purged (sm_state sm)"
  shows "sm_log sm' = sm_log sm"
proof -
  have wf: "bt_wf (sm_log sm')" "bt_wf (sm_log sm)" using tail by (simp_all add: tail_of_def)
  have "bt_get (sm_log sm') k = bt_get (sm_log sm) k" for k
  proof (rule ccontr)
    assume "bt_get (sm_log sm') k \<noteq> bt_get (sm_log sm) k"
    then obtain d where d: "bt_get (sm_log sm) k = Some d" "Some (ld_log_id d) \<le> L"
      using tail by (auto simp: tail_of_def)
    then have "(k, d) \<in> set (sm_log sm)" using wf by (simp add: bt_get_Some_iff)
    from sm_inv_bounds(1) [OF inv this] order_trans [OF d(2) L] show False by simp
  qed
  then have "bt_get (sm_log sm') = bt_get (sm_log sm)" by (rule ext)
  with wf show ?thesis by (rule bt.items_ext)
qed

text \<open>A replay that starts at a checkpoint at or below the final purge position.\<close>

lemma suffix_replay:
  fixes recs :: "(('l::linorder, 'p, 'v::order, 'u) raft_record \<times> 'c \<times> 'g) list"
  assumes inv_mid: "sm_inv T mid"
    and new: "sm_replay T mid ((Checkpoint (sm_state mid), c, g) # recs) = (Ok (), final)"
    and inv: "sm_inv T final"
    and gone: "st_last (sm_state mid) \<le> st_purged (sm_state final)"
  shows "\<exists>res. sm_replay T (sm_new cfg) ((Checkpoint (sm_state mid), c, g) # recs) = (Ok (), res)
     \<and> sm_state res = sm_state final \<and> sm_log res = sm_log final"
proof -
  let ?start = "(sm_new cfg)\<lparr>sm_state := sm_state mid\<rparr> :: ('l, 'p, 'v, 'u, 'c, 'g) state_machine"
  have wf: "bt_wf (sm_log mid)" using inv_mid by (simp add: sm_inv_def log_wf_def)
  have "Some (ld_log_id d) \<le> st_last (sm_state mid)" if "bt_get (sm_log mid) k = Some d" for k d
    using sm_inv_bounds(2) [OF inv_mid, of "(k, d)"] that wf by (simp add: bt_get_Some_iff)
  moreover have "sm_log ?start = []" by (simp add: sm_new_def)
  ultimately have tail: "tail_of (st_last (sm_state mid)) ?start mid"
    using wf by (auto simp: tail_of_def)
  have "sm_replay T mid recs = (Ok (), final)"
    using new by (simp add: sm_apply_def state_apply_def)
  with tail obtain res where res: "sm_replay T ?start recs = (Ok (), res)"
    "tail_of (st_last (sm_state mid)) res final" by (rule replay_tail)
  have "sm_replay T (sm_new cfg) ((Checkpoint (sm_state mid), c, g) # recs) = (Ok (), res)"
    using res(1) by (simp add: sm_apply_def state_apply_def)
  moreover have "sm_state res = sm_state final" using res(2) by (simp add: tail_of_def)
  moreover have "sm_log res = sm_log final" by (rule tail_ends [OF res(2) inv gone])
  ultimately show ?thesis by blast
qed

end
