(* ===== verification/Wal_Interface.thy ===== *)
theory Wal_Interface imports Raft_State
begin

text \<open>
  What the program uses of the crate \<open>chunked_wal\<close>, which is not part of this repository:
  a dictionary of the calls that \<open>src/raft_log/raft_log.rs\<close> makes on \<open>ChunkedWal\<close>, over
  an unknown state \<open>'w\<close>, and the locale \<open>chunked_wal\<close> with the laws the program relies
  on, as docs/architecture.md documents them.

  The laws speak of the WAL through four views. \<open>rec_at\<close> is the record appended at a place
  (chunk id and segment), pending or written; \<open>readable\<close> says that the file of a chunk
  holds what was appended to it, so that its records can be loaded; \<open>closed\<close> lists the
  closed chunks, oldest first, with the checkpoint each ended with; \<open>wal_ok\<close> is the
  implementation's own invariant. Chunk ids are byte offsets and therefore ascend.
\<close>

section \<open>Calls that change a state and may fail\<close>

text \<open>
  A method with \<open>&mut self\<close> returns its outcome with the state it leaves behind;
  \<open>sbind\<close> is \<open>?\<close> followed by the rest of the body.
\<close>

type_synonym ('a, 's) call = "('a, io_error) outcome \<times> 's"

fun sbind :: "('a, 's) call \<Rightarrow> ('a \<Rightarrow> 's \<Rightarrow> ('b, 's) call) \<Rightarrow> ('b, 's) call" where
  "sbind (Ok a, s) f = f a s"
| "sbind (Err e, s) f = (Err e, s)"
| "sbind (Panic, s) f = (Panic, s)"

lemma sbind_Ok_iff:
  "sbind m f = (Ok b, t) \<longleftrightarrow> (\<exists>a s. m = (Ok a, s) \<and> f a s = (Ok b, t))"
  by (cases "(m, f)" rule: sbind.cases) auto

lemma sbind_cases:
  obtains a s where "m = (Ok a, s)" and "sbind m f = f a s"
  | r s where "m = (r, s)" and "\<not> is_ok r" and "snd (sbind m f) = s"
      and "\<not> is_ok (fst (sbind m f))"
  by (cases "(m, f)" rule: sbind.cases) (auto intro: that)

text \<open>The rest of a body is looked at when the call before it has returned.\<close>

lemma sbind_first: "m = m' \<Longrightarrow> sbind m f = sbind m' f"
  by simp

section \<open>The calls\<close>

record ('w, 'c, 'g, 'cb, 'r, 'k) wal_api =
  wal_append :: "'w \<Rightarrow> 'r \<Rightarrow> (unit, 'w) call"
  wal_open_chunk_id :: "'w \<Rightarrow> 'c"
  wal_last_segment :: "'w \<Rightarrow> 'g"
  wal_try_close :: "'w \<Rightarrow> 'k \<Rightarrow> (bool, 'w) call"
  wal_drain_closed :: "'w \<Rightarrow> ('k \<Rightarrow> bool) \<Rightarrow> 'c list \<times> 'w"
  wal_send_pending :: "'w \<Rightarrow> bool \<Rightarrow> 'cb option \<Rightarrow> (unit, 'w) call"
  wal_send_remove :: "'w \<Rightarrow> 'c list \<Rightarrow> (unit, 'w) call"
  wal_load_record :: "'w \<Rightarrow> 'c \<Rightarrow> 'g \<Rightarrow> ('r, io_error) outcome"

section \<open>The laws\<close>

text \<open>A call that only adds: what was at a place stays there and stays readable.\<close>

definition wal_extends ::
  "('w \<Rightarrow> 'c \<Rightarrow> 'g \<Rightarrow> 'r option) \<Rightarrow> ('w \<Rightarrow> 'c \<Rightarrow> bool) \<Rightarrow> 'c set \<Rightarrow> 'w \<Rightarrow> 'w \<Rightarrow> bool" where
  "wal_extends rec_at readable gone w w' \<longleftrightarrow>
     (\<forall>c g r. c \<notin> gone \<longrightarrow> rec_at w c g = Some r \<longrightarrow> rec_at w' c g = Some r)
     \<and> (\<forall>c. c \<notin> gone \<longrightarrow> readable w c \<longrightarrow> readable w' c)"

locale chunked_wal =
  fixes W :: "('w, 'c::linorder, 'g, 'cb, 'r, 'k) wal_api"
    and rec_at :: "'w \<Rightarrow> 'c \<Rightarrow> 'g \<Rightarrow> 'r option"
    and readable :: "'w \<Rightarrow> 'c \<Rightarrow> bool"
    and closed :: "'w \<Rightarrow> ('c \<times> 'k) list"
    and wal_ok :: "'w \<Rightarrow> bool"
  assumes closed_before_open:
      "wal_ok w \<Longrightarrow> ck \<in> set (closed w) \<Longrightarrow> fst ck < wal_open_chunk_id W w"
    and append_law:
      "wal_ok w \<Longrightarrow> wal_append W w r = (res, w') \<Longrightarrow>
         wal_ok w' \<and> wal_extends rec_at readable {} w w'
         \<and> closed w' = closed w \<and> wal_open_chunk_id W w' = wal_open_chunk_id W w"
    and append_stores:
      "wal_ok w \<Longrightarrow> wal_append W w r = (Ok (), w') \<Longrightarrow>
         rec_at w' (wal_open_chunk_id W w') (wal_last_segment W w') = Some r"
    and close_law:
      "wal_ok w \<Longrightarrow> wal_try_close W w k = (did, w') \<Longrightarrow>
         wal_ok w' \<and> wal_extends rec_at readable {} w w'
         \<and> (closed w' = closed w \<and> wal_open_chunk_id W w' = wal_open_chunk_id W w
            \<or> closed w' = closed w @ [(wal_open_chunk_id W w, k)]
              \<and> wal_open_chunk_id W w < wal_open_chunk_id W w')"
    and drain_law:
      "wal_ok w \<Longrightarrow> wal_drain_closed W w P = (ids, w') \<Longrightarrow>
         wal_ok w' \<and> wal_extends rec_at readable (set ids) w w'
         \<and> ids = map fst (takeWhile (\<lambda>ck. P (snd ck)) (closed w))
         \<and> closed w' = dropWhile (\<lambda>ck. P (snd ck)) (closed w)
         \<and> wal_open_chunk_id W w' = wal_open_chunk_id W w"
    and send_pending_law:
      "wal_ok w \<Longrightarrow> wal_send_pending W w sync cb = (res, w') \<Longrightarrow>
         wal_ok w' \<and> wal_extends rec_at readable {} w w'
         \<and> closed w' = closed w \<and> wal_open_chunk_id W w' = wal_open_chunk_id W w"
    and send_remove_law:
      "wal_ok w \<Longrightarrow> wal_send_remove W w ids = (res, w') \<Longrightarrow>
         wal_ok w' \<and> wal_extends rec_at readable (set ids) w w'
         \<and> closed w' = closed w \<and> wal_open_chunk_id W w' = wal_open_chunk_id W w"
    and load_law:
      "wal_ok w \<Longrightarrow> rec_at w c g = Some r \<Longrightarrow> readable w c \<Longrightarrow> wal_load_record W w c g = Ok r"
begin

lemma drained_ids:
  "wal_ok w \<Longrightarrow> wal_drain_closed W w P = (ids, w') \<Longrightarrow> c \<in> set ids \<Longrightarrow>
     \<exists>k. (c, k) \<in> set (closed w) \<and> P k"
  using drain_law [of w P ids w'] set_takeWhileD [of _ "\<lambda>ck. P (snd ck)" "closed w"] by fastforce

lemma drained_before_open:
  "wal_ok w \<Longrightarrow> wal_drain_closed W w P = (ids, w') \<Longrightarrow> c \<in> set ids \<Longrightarrow>
     c < wal_open_chunk_id W w"
  using drained_ids [of w P ids w' c] closed_before_open [of w] by fastforce

lemma closed_after_drain:
  "wal_ok w \<Longrightarrow> wal_drain_closed W w P = (ids, w') \<Longrightarrow> ck \<in> set (closed w') \<Longrightarrow>
     ck \<in> set (closed w)"
  using drain_law [of w P ids w'] set_dropWhileD by fastforce

end

text \<open>The laws hold as well under a stronger invariant that every call keeps.\<close>

lemma chunked_wal_restrict:
  assumes wal: "chunked_wal W rec_at readable closed wal_ok"
    and "\<And>w r. P w \<Longrightarrow> P (snd (wal_append W w r))"
    and "\<And>w k. P w \<Longrightarrow> P (snd (wal_try_close W w k))"
    and "\<And>w Q. P w \<Longrightarrow> P (snd (wal_drain_closed W w Q))"
    and "\<And>w sync cb. P w \<Longrightarrow> P (snd (wal_send_pending W w sync cb))"
    and "\<And>w ids. P w \<Longrightarrow> P (snd (wal_send_remove W w ids))"
  shows "chunked_wal W rec_at readable closed (\<lambda>w. wal_ok w \<and> P w)"
proof (unfold_locales, goal_cases)
  case 1 then show ?case using chunked_wal.closed_before_open [OF wal] by blast
next
  case (2 w r res w') then show ?case using chunked_wal.append_law [OF wal] assms(2) [of w r] by auto
next
  case 3 then show ?case using chunked_wal.append_stores [OF wal] by blast
next
  case (4 w k res w') then show ?case
    using chunked_wal.close_law [OF wal _ 4(2)] assms(3) [of w k] by auto
next
  case (5 w Q ids w') then show ?case
    using chunked_wal.drain_law [OF wal _ 5(2)] assms(4) [of w Q] by auto
next
  case (6 w sync cb res w') then show ?case
    using chunked_wal.send_pending_law [OF wal _ 6(2)] assms(5) [of w sync cb] by auto
next
  case (7 w ids res w') then show ?case
    using chunked_wal.send_remove_law [OF wal _ 7(2)] assms(6) [of w ids] by auto
next
  case 8 then show ?case using chunked_wal.load_law [OF wal] by blast
qed

end
