(* ===== verification/Raft_Log.thy ===== *)
theory Raft_Log imports State_Machine Wal_Interface
begin

text \<open>
  \<open>src/raft_log/raft_log.rs\<close> with the write API of \<open>src/api/raft_log_writer.rs\<close> and the
  counters of \<open>src/raft_log/access_state.rs\<close>: the store that ties the WAL to the state
  machine. Every write is checked first, appended to the WAL, applied to the state machine
  with its place in the WAL, and may close the open chunk; closed chunks that hold only
  purged entries are set aside and handed to the flush worker by the next synced flush.

  A method with \<open>&mut self\<close> is a function from the store to its outcome and the store it
  leaves. The WAL is the dictionary \<open>W\<close> of \<open>Wal_Interface\<close>. Log output (\<open>info!\<close>) is left out.
\<close>

section \<open>The store\<close>

record access_stat =
  cache_hit :: u64
  cache_miss :: u64

record ('l, 'p, 'v, 'u, 'w, 'c, 'g, 'wc) raft_log =
  rl_config :: "'wc config"
  rl_wal :: 'w
  rl_sm :: "('l, 'p, 'v, 'u, 'c, 'g) state_machine"
  rl_removed :: "'c list"
  rl_access :: access_stat

type_synonym ('l, 'p, 'v, 'u, 'w, 'c, 'g, 'cb) raft_wal =
  "('w, 'c, 'g, 'cb, ('l, 'p, 'v, 'u) raft_record, ('l, 'v, 'u) raft_log_state) wal_api"

definition log_state ::
  "('l, 'p, 'v, 'u, 'w, 'c, 'g, 'wc) raft_log \<Rightarrow> ('l, 'v, 'u) raft_log_state" where
  "log_state s = sm_state (rl_sm s)"

text \<open>A call on the WAL field, a call on the state machine field, and \<open>?\<close> on a check.\<close>

definition on_wal ::
  "('a, 'w) call \<Rightarrow> ('l, 'p, 'v, 'u, 'w, 'c, 'g, 'wc) raft_log
     \<Rightarrow> ('a, ('l, 'p, 'v, 'u, 'w, 'c, 'g, 'wc) raft_log) call" where
  "on_wal m s = (fst m, s\<lparr>rl_wal := snd m\<rparr>)"

definition on_sm ::
  "('l, 'p, 'v) raft_types
     \<Rightarrow> ('a, ('l, 'v) state_error) outcome \<times> ('l, 'p, 'v, 'u, 'c, 'g) state_machine
     \<Rightarrow> ('l, 'p, 'v, 'u, 'w, 'c, 'g, 'wc) raft_log
     \<Rightarrow> ('a, ('l, 'p, 'v, 'u, 'w, 'c, 'g, 'wc) raft_log) call" where
  "on_sm T m s = (map_err (io_of_state_error T) (fst m), s\<lparr>rl_sm := snd m\<rparr>)"

definition checked ::
  "('l, 'p, 'v) raft_types \<Rightarrow> ('a, ('l, 'v) state_error) outcome \<Rightarrow> 's \<Rightarrow> ('a, 's) call" where
  "checked T r s = (map_err (io_of_state_error T) r, s)"

section \<open>Writing\<close>

definition buffer_removable_chunks ::
  "('l::linorder, 'p, 'v, 'u, 'w, 'c, 'g, 'cb) raft_wal
     \<Rightarrow> ('l, 'p, 'v, 'u, 'w, 'c, 'g, 'wc) raft_log
     \<Rightarrow> ('l, 'p, 'v, 'u, 'w, 'c, 'g, 'wc) raft_log" where
  "buffer_removable_chunks W s =
     (case st_purged (log_state s) of
        None \<Rightarrow> s
      | Some purged \<Rightarrow>
          (let drained = wal_drain_closed W (rl_wal s) (\<lambda>state. st_last state \<le> Some purged)
           in s\<lparr>rl_wal := snd drained, rl_removed := rl_removed s @ fst drained\<rparr>))"

definition append_and_apply ::
  "('l::linorder, 'p, 'v::order) raft_types \<Rightarrow> ('l, 'p, 'v, 'u, 'w, 'c, 'g, 'cb) raft_wal
     \<Rightarrow> ('l, 'p, 'v, 'u) raft_record \<Rightarrow> ('l, 'p, 'v, 'u, 'w, 'c, 'g, 'wc) raft_log
     \<Rightarrow> ('g, ('l, 'p, 'v, 'u, 'w, 'c, 'g, 'wc) raft_log) call" where
  "append_and_apply T W rec s =
     sbind (checked T (sm_check T (rl_sm s) rec) s) (\<lambda>_ s.
     sbind (on_wal (wal_append W (rl_wal s) rec) s) (\<lambda>_ s.
     sbind (on_sm T (sm_apply T (rl_sm s) rec (wal_open_chunk_id W (rl_wal s))
                       (wal_last_segment W (rl_wal s))) s) (\<lambda>_ s.
     sbind (on_wal (wal_try_close W (rl_wal s) (sm_checkpoint (rl_sm s))) s) (\<lambda>closed s.
       let s' = (if closed then buffer_removable_chunks W s else s)
       in (Ok (wal_last_segment W (rl_wal s')), s')))))"

definition save_user_data ::
  "('l::linorder, 'p, 'v::order) raft_types \<Rightarrow> ('l, 'p, 'v, 'u, 'w, 'c, 'g, 'cb) raft_wal
     \<Rightarrow> 'u option \<Rightarrow> ('l, 'p, 'v, 'u, 'w, 'c, 'g, 'wc) raft_log
     \<Rightarrow> ('g, ('l, 'p, 'v, 'u, 'w, 'c, 'g, 'wc) raft_log) call" where
  "save_user_data T W user_data s =
     append_and_apply T W
       (Checkpoint ((sm_checkpoint (rl_sm s))\<lparr>st_user_data := user_data\<rparr>)) s"

definition save_vote ::
  "('l::linorder, 'p, 'v::order) raft_types \<Rightarrow> ('l, 'p, 'v, 'u, 'w, 'c, 'g, 'cb) raft_wal
     \<Rightarrow> 'v \<Rightarrow> ('l, 'p, 'v, 'u, 'w, 'c, 'g, 'wc) raft_log
     \<Rightarrow> ('g, ('l, 'p, 'v, 'u, 'w, 'c, 'g, 'wc) raft_log) call" where
  "save_vote T W vote s = append_and_apply T W (Action (SaveVote vote)) s"

fun rl_append ::
  "('l::linorder, 'p, 'v::order) raft_types \<Rightarrow> ('l, 'p, 'v, 'u, 'w, 'c, 'g, 'cb) raft_wal
     \<Rightarrow> ('l \<times> 'p) list \<Rightarrow> ('l, 'p, 'v, 'u, 'w, 'c, 'g, 'wc) raft_log
     \<Rightarrow> ('g, ('l, 'p, 'v, 'u, 'w, 'c, 'g, 'wc) raft_log) call" where
  "rl_append T W [] s = (Ok (wal_last_segment W (rl_wal s)), s)"
| "rl_append T W ((log_id, payload) # entries) s =
     sbind (append_and_apply T W (Action (Append log_id payload)) s)
       (\<lambda>_ s. rl_append T W entries s)"

definition get_log_id ::
  "('l, 'p, 'v, 'u, 'w, 'c, 'g, 'wc) raft_log \<Rightarrow> u64
     \<Rightarrow> ('l, ('l, 'v) state_error) outcome" where
  "get_log_id s index =
     (case bt_get (sm_log (rl_sm s)) index of
        None \<Rightarrow> Err (LogIndexNotFound index)
      | Some entry \<Rightarrow> Ok (ld_log_id entry))"

text \<open>The id of the last entry that \<open>truncate(index)\<close> keeps.\<close>

definition truncate_target ::
  "('l, 'p, 'v) raft_types \<Rightarrow> u64 \<Rightarrow> ('l, 'p, 'v, 'u, 'w, 'c, 'g, 'wc) raft_log
     \<Rightarrow> ('l option, ('l, 'v) state_error) outcome" where
  "truncate_target T index s =
     (let purged = st_purged (log_state s)
      in if index = next_log_index T purged then Ok purged
         else if index = 0 then Err (LogIndexNotFound index)
         else and_then (get_log_id s (index - 1)) (\<lambda>log_id. Ok (Some log_id)))"

definition rl_truncate ::
  "('l::linorder, 'p, 'v::order) raft_types \<Rightarrow> ('l, 'p, 'v, 'u, 'w, 'c, 'g, 'cb) raft_wal
     \<Rightarrow> u64 \<Rightarrow> ('l, 'p, 'v, 'u, 'w, 'c, 'g, 'wc) raft_log
     \<Rightarrow> ('g, ('l, 'p, 'v, 'u, 'w, 'c, 'g, 'wc) raft_log) call" where
  "rl_truncate T W index s =
     sbind (checked T (truncate_target T index s) s) (\<lambda>log_id s.
       append_and_apply T W (Action (TruncateAfter log_id)) s)"

definition rl_purge ::
  "('l::linorder, 'p, 'v::order) raft_types \<Rightarrow> ('l, 'p, 'v, 'u, 'w, 'c, 'g, 'cb) raft_wal
     \<Rightarrow> 'l \<Rightarrow> ('l, 'p, 'v, 'u, 'w, 'c, 'g, 'wc) raft_log
     \<Rightarrow> ('g, ('l, 'p, 'v, 'u, 'w, 'c, 'g, 'wc) raft_log) call" where
  "rl_purge T W upto_id s =
     (if log_index T upto_id < next_log_index T (st_purged (log_state s)) then
        (Ok (wal_last_segment W (rl_wal s)), s)
      else
        sbind (append_and_apply T W (Action (PurgeUpto upto_id)) s) (\<lambda>res s.
          (Ok res, buffer_removable_chunks W s)))"

definition rl_commit ::
  "('l::linorder, 'p, 'v::order) raft_types \<Rightarrow> ('l, 'p, 'v, 'u, 'w, 'c, 'g, 'cb) raft_wal
     \<Rightarrow> 'l \<Rightarrow> ('l, 'p, 'v, 'u, 'w, 'c, 'g, 'wc) raft_log
     \<Rightarrow> ('g, ('l, 'p, 'v, 'u, 'w, 'c, 'g, 'wc) raft_log) call" where
  "rl_commit T W log_id s = append_and_apply T W (Action (Commit log_id)) s"

definition rl_flush ::
  "('l, 'p, 'v, 'u, 'w, 'c, 'g, 'cb) raft_wal \<Rightarrow> bool \<Rightarrow> 'cb option
     \<Rightarrow> ('l, 'p, 'v, 'u, 'w, 'c, 'g, 'wc) raft_log
     \<Rightarrow> (unit, ('l, 'p, 'v, 'u, 'w, 'c, 'g, 'wc) raft_log) call" where
  "rl_flush W sync callback s =
     sbind (on_wal (wal_send_pending W (rl_wal s) sync callback) s) (\<lambda>_ s.
       if sync \<and> rl_removed s \<noteq> [] then
         (let chunk_ids = rl_removed s;
              drained = s\<lparr>rl_removed := []\<rparr>
          in on_wal (wal_send_remove W (rl_wal drained) chunk_ids) drained)
       else (Ok (), s))"

definition update_state ::
  "('l::linorder, 'p, 'v::order) raft_types \<Rightarrow> ('l, 'p, 'v, 'u, 'w, 'c, 'g, 'cb) raft_wal
     \<Rightarrow> ('l, 'v, 'u) raft_log_state \<Rightarrow> ('l, 'p, 'v, 'u, 'w, 'c, 'g, 'wc) raft_log
     \<Rightarrow> ('g, ('l, 'p, 'v, 'u, 'w, 'c, 'g, 'wc) raft_log) call" where
  "update_state T W state s =
     sbind (checked T (check_checkpoint T (rl_sm s) state) s) (\<lambda>_ s.
       append_and_apply T W (Checkpoint state) s)"

section \<open>Reading\<close>

definition count_hit ::
  "('l, 'p, 'v, 'u, 'w, 'c, 'g, 'wc) raft_log
     \<Rightarrow> ('l, 'p, 'v, 'u, 'w, 'c, 'g, 'wc) raft_log" where
  "count_hit s = s\<lparr>rl_access := (rl_access s)\<lparr>cache_hit := cache_hit (rl_access s) + 1\<rparr>\<rparr>"

definition count_miss ::
  "('l, 'p, 'v, 'u, 'w, 'c, 'g, 'wc) raft_log
     \<Rightarrow> ('l, 'p, 'v, 'u, 'w, 'c, 'g, 'wc) raft_log" where
  "count_miss s = s\<lparr>rl_access := (rl_access s)\<lparr>cache_miss := cache_miss (rl_access s) + 1\<rparr>\<rparr>"

text \<open>
  One item of the iterator: the payload comes from the cache or is loaded from its chunk; a
  loaded record that is not an append is a panic. The id returned is that of the log map.
\<close>

definition read_entry ::
  "('l::linorder, 'p, 'v, 'u, 'w, 'c, 'g, 'cb) raft_wal \<Rightarrow> ('l, 'c, 'g) log_data
     \<Rightarrow> ('l, 'p, 'v, 'u, 'w, 'c, 'g, 'wc) raft_log
     \<Rightarrow> ('l \<times> 'p, ('l, 'p, 'v, 'u, 'w, 'c, 'g, 'wc) raft_log) call" where
  "read_entry W d s =
     (case cache_get (sm_cache (rl_sm s)) (ld_log_id d) of
        Some payload \<Rightarrow> (Ok (ld_log_id d, payload), count_hit s)
      | None \<Rightarrow>
          (and_then (wal_load_record W (rl_wal s) (ld_chunk_id d) (ld_segment d))
             (\<lambda>rec. case rec of
                Action (Append _ payload) \<Rightarrow> Ok (ld_log_id d, payload)
              | _ \<Rightarrow> Panic),
           count_miss s))"

text \<open>The iterator run to its end; an error is an item, a panic ends the run.\<close>

fun read_items ::
  "('l::linorder, 'p, 'v, 'u, 'w, 'c, 'g, 'cb) raft_wal \<Rightarrow> (u64 \<times> ('l, 'c, 'g) log_data) list
     \<Rightarrow> ('l, 'p, 'v, 'u, 'w, 'c, 'g, 'wc) raft_log
     \<Rightarrow> ('l \<times> 'p, io_error) outcome list \<times> ('l, 'p, 'v, 'u, 'w, 'c, 'g, 'wc) raft_log" where
  "read_items W [] s = ([], s)"
| "read_items W ((_, d) # es) s =
     (case read_entry W d s of
        (Panic, s') \<Rightarrow> ([Panic], s')
      | (r, s') \<Rightarrow> (case read_items W es s' of (rs, s'') \<Rightarrow> (r # rs, s'')))"

definition rl_read ::
  "('l::linorder, 'p, 'v, 'u, 'w, 'c, 'g, 'cb) raft_wal \<Rightarrow> u64 \<Rightarrow> u64
     \<Rightarrow> ('l, 'p, 'v, 'u, 'w, 'c, 'g, 'wc) raft_log
     \<Rightarrow> (('l \<times> 'p, io_error) outcome list,
          ('l, 'p, 'v, 'u, 'w, 'c, 'g, 'wc) raft_log) call" where
  "rl_read W lo hi s =
     sbind (bt_range lo hi (sm_log (rl_sm s)), s) (\<lambda>es s.
       case read_items W es s of (items, s') \<Rightarrow> (Ok items, s'))"

section \<open>The cache from outside\<close>

definition drain_cache_evictable ::
  "('l::linorder, 'p, 'v) raft_types \<Rightarrow> ('l, 'p, 'v, 'u, 'w, 'c, 'g, 'wc) raft_log
     \<Rightarrow> ('l, 'p, 'v, 'u, 'w, 'c, 'g, 'wc) raft_log" where
  "drain_cache_evictable T s =
     s\<lparr>rl_sm := (rl_sm s)\<lparr>sm_cache := drain_evictable T (sm_cache (rl_sm s))\<rparr>\<rparr>"

text \<open>
  The callback \<open>open\<close> hands to the WAL; the flush worker runs it on the shared cache when a
  chunk is on disk, with the checkpoint of the chunk before it.
\<close>

definition on_chunk_persisted ::
  "('l, 'v, 'u) raft_log_state option \<Rightarrow> ('l, 'p) payload_cache \<Rightarrow> ('l, 'p) payload_cache" where
  "on_chunk_persisted prev_chunk_checkpoint cache =
     (case prev_chunk_checkpoint of
        None \<Rightarrow> cache
      | Some k \<Rightarrow> set_last_evictable cache (st_last k))"

section \<open>Opening\<close>

text \<open>
  \<open>wal_open\<close> is \<open>ChunkedWal::open\<close> on this state machine: given the WAL configuration it
  returns the opened WAL and the state machine after the replay.
\<close>

definition rl_open ::
  "('wc \<Rightarrow> ('l, 'p, 'v, 'u, 'c, 'g) state_machine
      \<Rightarrow> ('w, io_error) outcome \<times> ('l, 'p, 'v, 'u, 'c, 'g) state_machine)
     \<Rightarrow> ('l::linorder, 'p, 'v, 'u, 'w, 'c, 'g, 'cb) raft_wal \<Rightarrow> 'wc config
     \<Rightarrow> (('l, 'p, 'v, 'u, 'w, 'c, 'g, 'wc) raft_log, io_error) outcome" where
  "rl_open wal_open W cfg =
     (case wal_open (cfg_wal cfg) (sm_new cfg) of
        (Ok w, sm) \<Rightarrow>
          Ok (buffer_removable_chunks W
                \<lparr>rl_config = cfg, rl_wal = w, rl_sm = sm, rl_removed = [],
                 rl_access = \<lparr>cache_hit = 0, cache_miss = 0\<rparr>\<rparr>)
      | (Err e, sm) \<Rightarrow> Err e
      | (Panic, sm) \<Rightarrow> Panic)"

end
