(* ===== verification/Raft_Store.thy ===== *)
theory Raft_Store imports Raft_Log
begin

text \<open>
  What the store promises, over any WAL that satisfies the laws of \<open>chunked_wal\<close>. The abstract
  log is the list of pairs of log id and payload; \<open>log_holds\<close> relates it to the store
  (the log map has these ids, and the record at the place of each is the append of its
  payload). \<open>rl_inv\<close> is the invariant: the state machine's own invariant, every live
  entry is served (its payload is cached, or its chunk is readable), an evictable entry is
  readable, and no live entry lies in a chunk that is set aside for removal.

  The lemmas are proved in the locale \<open>raft_wal\<close>, the laws at the record types of this
  program.
\<close>

section \<open>The abstract log and the invariant\<close>

definition placed ::
  "('w \<Rightarrow> 'c \<Rightarrow> 'g \<Rightarrow> ('l, 'p, 'v, 'u) raft_record option) \<Rightarrow> 'w
     \<Rightarrow> ('l, 'c, 'g) log_data \<Rightarrow> 'p \<Rightarrow> bool" where
  "placed rec_at w d p \<longleftrightarrow>
     rec_at w (ld_chunk_id d) (ld_segment d) = Some (Action (Append (ld_log_id d) p))"

definition log_holds ::
  "('w \<Rightarrow> 'c \<Rightarrow> 'g \<Rightarrow> ('l, 'p, 'v, 'u) raft_record option)
     \<Rightarrow> ('l, 'p, 'v, 'u, 'w, 'c, 'g, 'wc) raft_log \<Rightarrow> ('l \<times> 'p) list \<Rightarrow> bool" where
  "log_holds rec_at s es \<longleftrightarrow>
     list_all2 (\<lambda>e x. entry_id e = fst x \<and> placed rec_at (rl_wal s) (snd e) (snd x))
       (sm_log (rl_sm s)) es"

text \<open>What a record does to the abstract log.\<close>

fun log_effect ::
  "('l::linorder, 'p, 'v, 'u) raft_record \<Rightarrow> ('l \<times> 'p) list \<Rightarrow> ('l \<times> 'p) list" where
  "log_effect (Action (Append l p)) es = es @ [(l, p)]"
| "log_effect (Action (TruncateAfter keep)) es = filter (\<lambda>x. Some (fst x) \<le> keep) es"
| "log_effect (Action (PurgeUpto l)) es = filter (\<lambda>x. l < fst x) es"
| "log_effect rec es = es"

definition entry_ok ::
  "('w \<Rightarrow> 'c \<Rightarrow> 'g \<Rightarrow> ('l::linorder, 'p, 'v, 'u) raft_record option) \<Rightarrow> ('w \<Rightarrow> 'c \<Rightarrow> bool)
     \<Rightarrow> ('w \<Rightarrow> ('c \<times> ('l, 'v, 'u) raft_log_state) list) \<Rightarrow> 'c list \<Rightarrow> 'w
     \<Rightarrow> ('l, 'p) payload_cache \<Rightarrow> ('l, 'c, 'g) log_data \<Rightarrow> bool" where
  "entry_ok rec_at readable closed removed w cache d \<longleftrightarrow>
     (\<exists>p. placed rec_at w d p
        \<and> (cache_get cache (ld_log_id d) = Some p
           \<or> cache_get cache (ld_log_id d) = None \<and> readable w (ld_chunk_id d)))
     \<and> (evictable cache (ld_log_id d) \<longrightarrow> readable w (ld_chunk_id d))
     \<and> ld_chunk_id d \<notin> set removed
     \<and> (\<forall>k. (ld_chunk_id d, k) \<in> set (closed w) \<longrightarrow> Some (ld_log_id d) \<le> st_last k)"

definition rl_inv ::
  "('l::linorder, 'p, 'v) raft_types \<Rightarrow> ('l, 'p, 'v, 'u, 'w, 'c::linorder, 'g, 'cb) raft_wal
     \<Rightarrow> ('w \<Rightarrow> 'c \<Rightarrow> 'g \<Rightarrow> ('l, 'p, 'v, 'u) raft_record option) \<Rightarrow> ('w \<Rightarrow> 'c \<Rightarrow> bool)
     \<Rightarrow> ('w \<Rightarrow> ('c \<times> ('l, 'v, 'u) raft_log_state) list) \<Rightarrow> ('w \<Rightarrow> bool)
     \<Rightarrow> ('l, 'p, 'v, 'u, 'w, 'c, 'g, 'wc) raft_log \<Rightarrow> bool" where
  "rl_inv T W rec_at readable closed wal_ok s \<longleftrightarrow>
     wal_ok (rl_wal s) \<and> sm_inv T (rl_sm s) \<and> cache_wf (sm_cache (rl_sm s))
     \<and> (\<forall>c \<in> set (rl_removed s). c < wal_open_chunk_id W (rl_wal s))
     \<and> (\<forall>e \<in> set (sm_log (rl_sm s)).
          entry_ok rec_at readable closed (rl_removed s) (rl_wal s) (sm_cache (rl_sm s)) (snd e))"

definition chunks_of ::
  "('w \<Rightarrow> ('c \<times> ('l, 'v, 'u) raft_log_state) list)
     \<Rightarrow> ('l, 'p, 'v, 'u, 'w, 'c, 'g, 'wc) raft_log \<Rightarrow> 'c set" where
  "chunks_of closed s = set (rl_removed s) \<union> fst ` set (closed (rl_wal s))"

text \<open>
  A record that the invariant survives: it fits the state machine, and an appended id lies
  above the eviction boundary of the cache.
\<close>

definition write_fits ::
  "('l::linorder, 'p, 'v) raft_types \<Rightarrow> ('l, 'p, 'v, 'u, 'w, 'c, 'g, 'wc) raft_log
     \<Rightarrow> ('l, 'p, 'v, 'u) raft_record \<Rightarrow> bool" where
  "write_fits T s rec \<longleftrightarrow>
     record_fits T (rl_sm s) rec
     \<and> (case rec of
          Action (Append l p) \<Rightarrow> \<not> evictable (sm_cache (rl_sm s)) l
        | _ \<Rightarrow> True)"

lemma write_fits_frame:
  "rl_sm s' = rl_sm s \<Longrightarrow> write_fits T s' rec = write_fits T s rec"
  by (simp add: write_fits_def split: raft_record.split raft_action.split)

lemma all2_filter:
  assumes "list_all2 P xs ys" and "\<And>x y. P x y \<Longrightarrow> Q x = R y"
  shows "list_all2 P (filter Q xs) (filter R ys)"
  using assms(1) by (induction rule: list_all2_induct) (auto simp: assms(2))

lemma entry_ok_wal:
  assumes ok: "entry_ok rec_at readable closed removed w cache d"
    and ext: "wal_extends rec_at readable A w w'" and "ld_chunk_id d \<notin> A"
    and "\<And>k. (ld_chunk_id d, k) \<in> set (closed w') \<Longrightarrow>
       (ld_chunk_id d, k) \<in> set (closed w) \<or> Some (ld_log_id d) \<le> st_last k"
  shows "entry_ok rec_at readable closed removed w' cache d"
proof -
  have keep: "placed rec_at w' d p" if "placed rec_at w d p" for p
    using that ext assms(3) by (simp add: placed_def wal_extends_def)
  have "readable w' (ld_chunk_id d)" if "readable w (ld_chunk_id d)"
    using that ext assms(3) by (simp add: wal_extends_def)
  with ok keep assms(4) show ?thesis unfolding entry_ok_def by blast
qed

lemma entry_ok_cache:
  assumes ok: "entry_ok rec_at readable closed removed w cache d"
    and "evictable cache' (ld_log_id d) = evictable cache (ld_log_id d)"
    and "cache_get cache' (ld_log_id d) = cache_get cache (ld_log_id d)
       \<or> cache_get cache' (ld_log_id d) = None \<and> evictable cache (ld_log_id d)"
  shows "entry_ok rec_at readable closed removed w cache' d"
proof -
  from ok obtain p where p: "placed rec_at w d p"
    and served: "cache_get cache (ld_log_id d) = Some p
       \<or> cache_get cache (ld_log_id d) = None \<and> readable w (ld_chunk_id d)"
    and ev: "evictable cache (ld_log_id d) \<longrightarrow> readable w (ld_chunk_id d)"
    by (auto simp: entry_ok_def)
  from assms(3) served ev have "cache_get cache' (ld_log_id d) = Some p
       \<or> cache_get cache' (ld_log_id d) = None \<and> readable w (ld_chunk_id d)"
    by auto
  with ok p assms(2) show ?thesis by (auto simp: entry_ok_def)
qed

section \<open>The two cuts of the log map, by log id\<close>

lemma truncate_is_filter:
  fixes sm :: "('l::linorder, 'p, 'v::order, 'u, 'c, 'g) state_machine"
  assumes inv: "sm_inv T sm" and pt: "truncate_point sm keep"
  shows "bt_below (next_log_index T keep) (sm_log sm)
       = filter (\<lambda>e. Some (entry_id e) \<le> keep) (sm_log sm)"
proof -
  let ?cut = "bt_below (next_log_index T keep) (sm_log sm)"
  have inv': "sm_inv T (sm\<lparr>sm_log := ?cut, sm_cache := sm_cache sm,
      sm_state := state_truncate_after (sm_state sm) keep\<rparr>)"
    by (rule inv_truncate [OF inv pt])
  have kept: "Some (entry_id e) \<le> keep" if "e \<in> set ?cut" for e
    using sm_inv_bounds(2) [OF inv', of e] that by simp
  have "(fst e < next_log_index T keep) = (Some (entry_id e) \<le> keep)" if "e \<in> set (sm_log sm)" for e
    using kept [of e] truncate_removes [OF inv pt that] that
    by (auto simp: bt_below_def not_le [symmetric])
  then show ?thesis unfolding bt_below_def by (rule filter_cong [OF refl])
qed

lemma purge_is_filter:
  fixes sm :: "('l::linorder, 'p, 'v::order, 'u, 'c, 'g) state_machine"
  assumes inv: "sm_inv T sm" and pt: "purge_point T sm l"
  shows "bt_from (log_index T l + 1) (sm_log sm) = filter (\<lambda>e. l < entry_id e) (sm_log sm)"
proof -
  let ?rec = "Action (PurgeUpto l) :: ('l, 'p, 'v, 'u) raft_record"
  have inv': "sm_inv T ((sm_touch T sm ?rec undefined undefined)
      \<lparr>sm_state := state_effect (sm_state sm) ?rec\<rparr>)"
    using accepted_inv [OF inv, of ?rec] pt by (simp add: sm_check_def)
  have kept: "l < entry_id e" if "e \<in> set (bt_from (log_index T l + 1) (sm_log sm))" for e
    using sm_inv_bounds(1) [OF inv', of e] that by (simp add: bt_split_off_def)
  have "(log_index T l + 1 \<le> fst e) = (l < entry_id e)" if "e \<in> set (sm_log sm)" for e
    using kept [of e] purge_removes [OF inv pt that] that
    by (auto simp: bt_from_def not_less [symmetric])
  then show ?thesis unfolding bt_from_def by (rule filter_cong [OF refl])
qed

section \<open>The state machine's part of a write\<close>

lemma entries_after_append:
  assumes inv: "sm_inv T sm" and check: "check_append T (sm_state sm) l = Ok ()"
  shows "sm_log (sm_touch T sm (Action (Append l p)) c g) =
     sm_log sm @ [(log_index T l, \<lparr>ld_log_id = l, ld_chunk_id = c, ld_segment = g\<rparr>)]"
  using append_at_end [OF assms] by simp

lemma touch_entries:
  fixes sm :: "('l::linorder, 'p, 'v::order, 'u, 'c, 'g) state_machine"
  assumes "sm_inv T sm" and "record_fits T sm rec" and "sm_check T sm rec = Ok ()"
  shows "sm_log (sm_touch T sm rec c g) =
     (case rec of
        Action (Append l p) \<Rightarrow>
          sm_log sm @ [(log_index T l, \<lparr>ld_log_id = l, ld_chunk_id = c, ld_segment = g\<rparr>)]
      | Action (TruncateAfter keep) \<Rightarrow> filter (\<lambda>e. Some (entry_id e) \<le> keep) (sm_log sm)
      | Action (PurgeUpto l) \<Rightarrow> filter (\<lambda>e. l < entry_id e) (sm_log sm)
      | _ \<Rightarrow> sm_log sm)"
proof (cases rec)
  case (Action a)
  then show ?thesis
    using assms entries_after_append [of T sm]
    by (cases a) (simp_all add: sm_check_def Let_def bt_split_off_def truncate_is_filter
        purge_is_filter [of T sm, simplified])
qed simp

text \<open>An entry that stays keeps its cached payload, or loses it when it is evictable.\<close>

lemma touch_cache:
  fixes sm :: "('l::linorder, 'p, 'v::order, 'u, 'c, 'g) state_machine"
  assumes wf: "cache_wf (sm_cache sm)" and "\<And>p. rec \<noteq> Action (Append k p)"
    and kept: "\<And>keep. rec = Action (TruncateAfter keep) \<Longrightarrow> Some k \<le> keep"
  shows "cache_get (sm_cache (sm_touch T sm rec c g)) k = cache_get (sm_cache sm) k
     \<or> cache_get (sm_cache (sm_touch T sm rec c g)) k = None \<and> evictable (sm_cache sm) k"
proof (cases rec)
  case (Action a)
  show ?thesis
  proof (cases a)
    case (Append l p)
    then have "k \<noteq> l" using assms(2) Action by auto
    then show ?thesis
      using get_insert [OF wf, of k T l p] get_insert_imp [OF wf, of T l p k] Action Append
      by (cases "cache_get (cache_insert T l p (sm_cache sm)) k") auto
  next
    case (TruncateAfter keep)
    with kept Action obtain l where "keep = Some l" "k \<le> l" by (auto simp: Some_le_iff)
    with Action TruncateAfter wf show ?thesis by (simp add: Let_def get_truncate)
  next
    case (PurgeUpto l)
    with Action wf show ?thesis by (simp add: Let_def get_purge)
  qed (use Action in simp_all)
qed simp

lemma touch_boundary:
  "cache_wf (sm_cache sm) \<Longrightarrow>
     pc_last_evictable (sm_cache (sm_touch T sm rec c g)) = pc_last_evictable (sm_cache sm)
     \<and> cache_wf (sm_cache (sm_touch T sm rec c g))"
  by (cases "(T, sm, rec, c, g)" rule: sm_touch.cases) (auto simp: Let_def split: option.split)

section \<open>Writes keep the invariant\<close>

lemma write_on_wal:
  fixes rec :: "('l::linorder, 'p, 'v::order, 'u) raft_record"
  obtains (rejected) e where "sm_check T (rl_sm s) rec = Err e"
      "append_and_apply T W rec s = (Err (io_of_state_error T e), s)"
  | (not_appended) r w where "sm_check T (rl_sm s) rec = Ok ()"
      "wal_append W (rl_wal s) rec = (r, w)" "\<not> is_ok r"
      "\<not> is_ok (fst (append_and_apply T W rec s))"
      "snd (append_and_apply T W rec s) = s\<lparr>rl_wal := w\<rparr>"
  | (not_closed) w s2 r w2 where "sm_check T (rl_sm s) rec = Ok ()"
      "wal_append W (rl_wal s) rec = (Ok (), w)"
      "s2 = s\<lparr>rl_wal := w, rl_sm := snd (sm_apply T (rl_sm s) rec (wal_open_chunk_id W w)
                                       (wal_last_segment W w))\<rparr>"
      "wal_try_close W w (sm_checkpoint (rl_sm s2)) = (r, w2)" "\<not> is_ok r"
      "\<not> is_ok (fst (append_and_apply T W rec s))"
      "snd (append_and_apply T W rec s) = s2\<lparr>rl_wal := w2\<rparr>"
  | (written) w s2 closed w2 s3 where "sm_check T (rl_sm s) rec = Ok ()"
      "wal_append W (rl_wal s) rec = (Ok (), w)"
      "s2 = s\<lparr>rl_wal := w, rl_sm := snd (sm_apply T (rl_sm s) rec (wal_open_chunk_id W w)
                                       (wal_last_segment W w))\<rparr>"
      "wal_try_close W w (sm_checkpoint (rl_sm s2)) = (Ok closed, w2)"
      "s3 = (if closed then buffer_removable_chunks W (s2\<lparr>rl_wal := w2\<rparr>) else s2\<lparr>rl_wal := w2\<rparr>)"
      "append_and_apply T W rec s = (Ok (wal_last_segment W (rl_wal s3)), s3)"
proof (cases "sm_check T (rl_sm s) rec")
  case (Err e)
  then show ?thesis by (intro rejected) (simp_all add: append_and_apply_def checked_def)
next
  case Panic
  then show ?thesis using state_check_not_Panic [of T "sm_state (rl_sm s)" rec]
    by (simp add: sm_check_def)
next
  case (Ok u)
  then have check: "sm_check T (rl_sm s) rec = Ok ()" by simp
  obtain r w where app: "wal_append W (rl_wal s) rec = (r, w)" by fastforce
  show ?thesis
  proof (cases "r = Ok ()")
    case False
    then have "\<not> is_ok r" by (cases r) auto
    with check app show ?thesis
      by (intro not_appended) (cases r, simp_all add: append_and_apply_def checked_def on_wal_def)+
  next
    case True
    let ?sm = "snd (sm_apply T (rl_sm s) rec (wal_open_chunk_id W w) (wal_last_segment W w))"
    let ?s2 = "s\<lparr>rl_wal := w, rl_sm := ?sm\<rparr>"
    have ap: "fst (sm_apply T (rl_sm s) rec (wal_open_chunk_id W w) (wal_last_segment W w)) = Ok ()"
      using sm_apply_accepted [OF check] by simp
    obtain r2 w2 where cl: "wal_try_close W w (sm_checkpoint ?sm) = (r2, w2)" by fastforce
    show ?thesis
    proof (cases r2)
      case (Ok b)
      with check app True ap cl show ?thesis
        by (intro written [OF check, of w ?s2 b w2])
          (simp_all add: append_and_apply_def checked_def on_wal_def on_sm_def Let_def)
    next
      case (Err e)
      with check app True ap cl show ?thesis
        by (intro not_closed [OF check, of w ?s2 r2 w2])
          (simp_all add: append_and_apply_def checked_def on_wal_def on_sm_def)
    next
      case (Panic)
      with check app True ap cl show ?thesis
        by (intro not_closed [OF check, of w ?s2 r2 w2])
          (simp_all add: append_and_apply_def checked_def on_wal_def on_sm_def)
    qed
  qed
qed

locale raft_wal = chunked_wal W rec_at readable closed wal_ok
  for W :: "('w, 'c::linorder, 'g, 'cb, ('l::linorder, 'p, 'v::order, 'u) raft_record,
      ('l, 'v, 'u) raft_log_state) wal_api"
    and rec_at :: "'w \<Rightarrow> 'c \<Rightarrow> 'g \<Rightarrow> ('l, 'p, 'v, 'u) raft_record option"
    and readable :: "'w \<Rightarrow> 'c \<Rightarrow> bool"
    and closed :: "'w \<Rightarrow> ('c \<times> ('l, 'v, 'u) raft_log_state) list"
    and wal_ok :: "'w \<Rightarrow> bool"
begin

lemma inv_wal_same:
  assumes inv: "rl_inv T W rec_at readable closed wal_ok s" and "wal_ok w"
    and ext: "wal_extends rec_at readable {} (rl_wal s) w"
    and "closed w = closed (rl_wal s)"
    and "wal_open_chunk_id W w = wal_open_chunk_id W (rl_wal s)"
  shows "rl_inv T W rec_at readable closed wal_ok (s\<lparr>rl_wal := w\<rparr>)"
proof -
  have "entry_ok rec_at readable closed (rl_removed s) w (sm_cache (rl_sm s)) (snd e)"
    if "e \<in> set (sm_log (rl_sm s))" for e
    using that inv assms(4)
    by (intro entry_ok_wal [OF _ ext]) (auto simp: rl_inv_def)
  with assms show ?thesis by (simp add: rl_inv_def)
qed

lemma holds_wal:
  assumes holds: "log_holds rec_at s es" and ext: "wal_extends rec_at readable A (rl_wal s) w"
    and gone: "\<forall>e \<in> set (sm_log (rl_sm s)). ld_chunk_id (snd e) \<notin> A"
  shows "log_holds rec_at (s\<lparr>rl_wal := w\<rparr>) es"
proof -
  have "placed rec_at w (snd e) p"
    if "e \<in> set (sm_log (rl_sm s))" "placed rec_at (rl_wal s) (snd e) p" for e p
    using that gone ext by (auto simp: placed_def wal_extends_def)
  with holds show ?thesis
    unfolding log_holds_def by (auto elim!: list.rel_mono_strong)
qed

lemma inv_close:
  assumes inv: "rl_inv T W rec_at readable closed wal_ok s"
    and close: "wal_try_close W (rl_wal s) (sm_checkpoint (rl_sm s)) = (r, w)"
  shows "rl_inv T W rec_at readable closed wal_ok (s\<lparr>rl_wal := w\<rparr>)"
    and "log_holds rec_at s es \<Longrightarrow> log_holds rec_at (s\<lparr>rl_wal := w\<rparr>) es"
proof -
  have ok: "wal_ok (rl_wal s)" and sm: "sm_inv T (rl_sm s)" using inv by (simp_all add: rl_inv_def)
  have law: "wal_ok w" "wal_extends rec_at readable {} (rl_wal s) w"
    "closed w = closed (rl_wal s) \<and> wal_open_chunk_id W w = wal_open_chunk_id W (rl_wal s)
     \<or> closed w = closed (rl_wal s) @ [(wal_open_chunk_id W (rl_wal s), sm_checkpoint (rl_sm s))]
       \<and> wal_open_chunk_id W (rl_wal s) < wal_open_chunk_id W w"
    using close_law [OF ok close] by blast+
  note ext = law(2)
  have below: "c < wal_open_chunk_id W w" if "c < wal_open_chunk_id W (rl_wal s)" for c
    using law(3) order_less_trans [OF that] that by presburger
  have bound: "ck \<in> set (closed (rl_wal s)) \<or> snd ck = sm_state (rl_sm s)"
    if "ck \<in> set (closed w)" for ck
    using law(3) that by (auto simp: sm_checkpoint_def)
  have "entry_ok rec_at readable closed (rl_removed s) w (sm_cache (rl_sm s)) (snd e)"
    if e: "e \<in> set (sm_log (rl_sm s))" for e
  proof (rule entry_ok_wal [OF _ ext])
    show "entry_ok rec_at readable closed (rl_removed s) (rl_wal s) (sm_cache (rl_sm s)) (snd e)"
      using inv e by (simp add: rl_inv_def)
    show "(ld_chunk_id (snd e), k) \<in> set (closed (rl_wal s)) \<or> Some (entry_id e) \<le> st_last k"
      if "(ld_chunk_id (snd e), k) \<in> set (closed w)" for k
      using bound [OF that] sm_inv_bounds(2) [OF sm e] by auto
  qed simp
  with inv law(1) below show "rl_inv T W rec_at readable closed wal_ok (s\<lparr>rl_wal := w\<rparr>)"
    by (simp add: rl_inv_def)
  show "log_holds rec_at s es \<Longrightarrow> log_holds rec_at (s\<lparr>rl_wal := w\<rparr>) es"
    by (rule holds_wal [OF _ ext]) auto
qed

text \<open>No live entry lies in a chunk whose checkpoint is at or below the purge position.\<close>

lemma live_not_drained:
  assumes inv: "rl_inv T W rec_at readable closed wal_ok s"
    and p: "st_purged (log_state s) = Some p"
    and drain: "wal_drain_closed W (rl_wal s) (\<lambda>k. st_last k \<le> Some p) = (ids, w)"
    and e: "e \<in> set (sm_log (rl_sm s))"
  shows "ld_chunk_id (snd e) \<notin> set ids"
proof
  assume c: "ld_chunk_id (snd e) \<in> set ids"
  have "wal_ok (rl_wal s)" using inv by (simp add: rl_inv_def)
  from drained_ids [OF this drain c] obtain k where
    k: "(ld_chunk_id (snd e), k) \<in> set (closed (rl_wal s))" "st_last k \<le> Some p" by blast
  have "Some (entry_id e) \<le> st_last k"
    using inv e k(1) by (auto simp: rl_inv_def entry_ok_def)
  moreover have "Some p < Some (entry_id e)"
    using sm_inv_bounds(1) [of T "rl_sm s" e] inv e p by (simp add: rl_inv_def log_state_def)
  ultimately show False using k(2) by (meson leD order_trans)
qed

lemma inv_buffer:
  assumes inv: "rl_inv T W rec_at readable closed wal_ok s"
  shows "rl_inv T W rec_at readable closed wal_ok (buffer_removable_chunks W s)"
    and "log_holds rec_at s es \<Longrightarrow> log_holds rec_at (buffer_removable_chunks W s) es"
    and "rl_sm (buffer_removable_chunks W s) = rl_sm s"
proof -
  show "rl_sm (buffer_removable_chunks W s) = rl_sm s"
    by (simp add: buffer_removable_chunks_def Let_def split: option.split)
  have "rl_inv T W rec_at readable closed wal_ok (buffer_removable_chunks W s)
      \<and> (log_holds rec_at s es \<longrightarrow> log_holds rec_at (buffer_removable_chunks W s) es)"
  proof (cases "st_purged (log_state s)")
    case None
    with inv show ?thesis by (simp add: buffer_removable_chunks_def)
  next
    case (Some p)
    obtain ids w where drain: "wal_drain_closed W (rl_wal s) (\<lambda>k. st_last k \<le> Some p) = (ids, w)"
      by fastforce
    have ok: "wal_ok (rl_wal s)" using inv by (simp add: rl_inv_def)
    note law = drain_law [OF ok drain]
    have ext: "wal_extends rec_at readable (set ids) (rl_wal s) w" using law by blast
    note live = live_not_drained [OF inv Some drain]
    have eq: "buffer_removable_chunks W s = s\<lparr>rl_wal := w, rl_removed := rl_removed s @ ids\<rparr>"
      using Some drain by (simp add: buffer_removable_chunks_def)
    have "entry_ok rec_at readable closed (rl_removed s @ ids) w (sm_cache (rl_sm s)) (snd e)"
      if e: "e \<in> set (sm_log (rl_sm s))" for e
    proof -
      have old: "entry_ok rec_at readable closed (rl_removed s) (rl_wal s) (sm_cache (rl_sm s)) (snd e)"
        using inv e by (simp add: rl_inv_def)
      have "entry_ok rec_at readable closed (rl_removed s) w (sm_cache (rl_sm s)) (snd e)"
        by (rule entry_ok_wal [OF old ext live [OF e]])
          (use closed_after_drain [OF ok drain] in blast)
      with live [OF e] show ?thesis by (simp add: entry_ok_def)
    qed
    then have "rl_inv T W rec_at readable closed wal_ok (buffer_removable_chunks W s)"
      using inv law drained_before_open [OF ok drain] by (auto simp: rl_inv_def eq)
    moreover have "log_holds rec_at (s\<lparr>rl_wal := w\<rparr>) es" if "log_holds rec_at s es"
      using holds_wal [OF that ext] live by blast
    ultimately show ?thesis by (simp add: eq log_holds_def)
  qed
  then show "rl_inv T W rec_at readable closed wal_ok (buffer_removable_chunks W s)"
    and "log_holds rec_at s es \<Longrightarrow> log_holds rec_at (buffer_removable_chunks W s) es" by auto
qed

text \<open>The state machine applies a record that the WAL has just stored.\<close>

lemma inv_apply:
  assumes inv: "rl_inv T W rec_at readable closed wal_ok s"
    and fits: "write_fits T s rec" and check: "sm_check T (rl_sm s) rec = Ok ()"
    and at: "rec_at (rl_wal s) (wal_open_chunk_id W (rl_wal s)) g = Some rec"
    and s': "s' = s\<lparr>rl_sm := snd (sm_apply T (rl_sm s) rec (wal_open_chunk_id W (rl_wal s)) g)\<rparr>"
  shows "rl_inv T W rec_at readable closed wal_ok s'"
    and "log_holds rec_at s es \<Longrightarrow> log_holds rec_at s' (log_effect rec es)"
proof -
  let ?sm = "rl_sm s" and ?w = "rl_wal s" and ?c = "wal_open_chunk_id W (rl_wal s)"
  let ?touched = "sm_touch T ?sm rec ?c g"
  let ?cache = "sm_cache ?touched"
  have sm: "sm_inv T ?sm" and wf: "cache_wf (sm_cache ?sm)" and ok: "wal_ok ?w"
    using inv by (simp_all add: rl_inv_def)
  have rf: "record_fits T ?sm rec" using fits by (simp add: write_fits_def)
  have sm': "rl_sm s' = ?touched\<lparr>sm_state := state_effect (sm_state ?sm) rec\<rparr>"
    by (simp add: s' sm_apply_accepted [OF check])
  have inv': "sm_inv T (rl_sm s')"
    using accepted_inv [OF sm rf check] by (simp add: sm')
  note boundary = touch_boundary [OF wf, of T rec ?c g]
  have ev: "evictable ?cache = evictable (sm_cache ?sm)"
    using boundary by (simp add: evictable_def fun_eq_iff)
  note log' = touch_entries [OF sm rf check, of ?c g]
  have old: "entry_ok rec_at readable closed (rl_removed s) ?w ?cache (snd e)"
    if e: "e \<in> set (sm_log ?sm)" "e \<in> set (sm_log ?touched)" for e
  proof (rule entry_ok_cache [of _ _ _ _ _ "sm_cache ?sm"])
    show "entry_ok rec_at readable closed (rl_removed s) ?w (sm_cache ?sm) (snd e)"
      using inv e(1) by (simp add: rl_inv_def)
    have "rec \<noteq> Action (Append (entry_id e) p)" for p
      using append_above [OF sm _ e(1), of "entry_id e"] check by (auto simp: sm_check_def)
    moreover have "Some (entry_id e) \<le> keep" if "rec = Action (TruncateAfter keep)" for keep
      using e(2) log' that by simp
    ultimately show "cache_get ?cache (entry_id e) = cache_get (sm_cache ?sm) (entry_id e)
        \<or> cache_get ?cache (entry_id e) = None \<and> evictable (sm_cache ?sm) (entry_id e)"
      by (rule touch_cache [OF wf])
  qed (simp add: ev)
  have new: "entry_ok rec_at readable closed (rl_removed s) ?w ?cache
      \<lparr>ld_log_id = l, ld_chunk_id = ?c, ld_segment = g\<rparr>" if rec: "rec = Action (Append l p)" for l p
  proof -
    have out: "\<not> evictable (sm_cache ?sm) l" using fits rec by (simp add: write_fits_def)
    moreover have "?c \<notin> set (rl_removed s)" using inv by (auto simp: rl_inv_def)
    moreover have "(?c, k) \<notin> set (closed ?w)" for k
      using closed_before_open [OF ok, of "(?c, k)"] by auto
    ultimately show ?thesis
      using at rec ev get_insert [OF wf out, of T l p]
      by (simp add: entry_ok_def placed_def)
  qed
  have "entry_ok rec_at readable closed (rl_removed s) ?w ?cache (snd e)"
    if "e \<in> set (sm_log ?touched)" for e
    using that old [of e] new log'
    by (cases "e \<in> set (sm_log ?sm)") (auto split: raft_record.splits raft_action.splits)
  then show "rl_inv T W rec_at readable closed wal_ok s'"
    using inv inv' boundary by (simp add: rl_inv_def sm') (simp add: s')
  show "log_holds rec_at s' (log_effect rec es)" if holds: "log_holds rec_at s es"
  proof -
    let ?R = "\<lambda>e x. entry_id e = fst x \<and> placed rec_at ?w (snd e) (snd x)"
    have es: "list_all2 ?R (sm_log ?sm) es" using holds by (simp add: log_holds_def)
    have "list_all2 ?R (sm_log ?touched) (log_effect rec es)"
    proof (cases "(rec, es)" rule: log_effect.cases)
      case (1 l p es)
      then show ?thesis
        using es at unfolding log' by (simp add: placed_def list_all2_appendI)
    qed (use es in \<open>unfold log', auto intro!: all2_filter\<close>)
    then show ?thesis by (simp add: log_holds_def sm') (simp add: s')
  qed
qed

text \<open>The record is appended and then applied.\<close>

lemma inv_stored:
  assumes inv: "rl_inv T W rec_at readable closed wal_ok s" and fits: "write_fits T s rec"
    and check: "sm_check T (rl_sm s) rec = Ok ()" and app: "wal_append W (rl_wal s) rec = (Ok (), w)"
    and s2: "s2 = s\<lparr>rl_wal := w, rl_sm := snd (sm_apply T (rl_sm s) rec (wal_open_chunk_id W w)
                                     (wal_last_segment W w))\<rparr>"
  shows "rl_inv T W rec_at readable closed wal_ok s2"
    and "log_holds rec_at s es \<Longrightarrow> log_holds rec_at s2 (log_effect rec es)"
proof -
  have ok: "wal_ok (rl_wal s)" using inv by (simp add: rl_inv_def)
  let ?s1 = "s\<lparr>rl_wal := w\<rparr>"
  have law: "wal_ok w" "wal_extends rec_at readable {} (rl_wal s) w" "closed w = closed (rl_wal s)"
    "wal_open_chunk_id W w = wal_open_chunk_id W (rl_wal s)" using append_law [OF ok app] by blast+
  note inv1 = inv_wal_same [OF inv law]
  have "write_fits T ?s1 rec" "sm_check T (rl_sm ?s1) rec = Ok ()"
    using fits check write_fits_frame [of ?s1 s T rec] by simp_all
  note apply_s1 = inv_apply [OF inv1 this, of "wal_last_segment W w" s2]
  have "rec_at w (wal_open_chunk_id W w) (wal_last_segment W w) = Some rec"
    by (rule append_stores [OF ok app])
  with apply_s1 s2 holds_wal [of s es "{}" w] law(2) show "rl_inv T W rec_at readable closed wal_ok s2"
    and "log_holds rec_at s es \<Longrightarrow> log_holds rec_at s2 (log_effect rec es)" by simp_all
qed

text \<open>One write, with every way it can end.\<close>

lemma write_inv:
  assumes inv: "rl_inv T W rec_at readable closed wal_ok s" and fits: "write_fits T s rec"
    and run: "append_and_apply T W rec s = (r, s')"
  shows "rl_inv T W rec_at readable closed wal_ok s'"
    and "r = Ok g \<Longrightarrow> log_holds rec_at s es \<Longrightarrow> log_holds rec_at s' (log_effect rec es)"
    and "log_holds rec_at s es \<Longrightarrow> log_holds rec_at s' es \<and> log_state s' = log_state s
       \<or> sm_check T (rl_sm s) rec = Ok () \<and> log_holds rec_at s' (log_effect rec es)
         \<and> log_state s' = state_effect (log_state s) rec"
    and "pc_last_evictable (sm_cache (rl_sm s')) = pc_last_evictable (sm_cache (rl_sm s))"
    and "r = Ok g \<Longrightarrow> log_state s' = state_effect (log_state s) rec"
proof -
  have ok: "wal_ok (rl_wal s)" and wf: "cache_wf (sm_cache (rl_sm s))"
    using inv by (simp_all add: rl_inv_def)
  have appended: "rl_inv T W rec_at readable closed wal_ok (s\<lparr>rl_wal := w\<rparr>)
      \<and> (log_holds rec_at s es \<longrightarrow> log_holds rec_at (s\<lparr>rl_wal := w\<rparr>) es)"
    if "wal_append W (rl_wal s) rec = (a, w)" for a w
    using append_law [OF ok that] inv_wal_same [OF inv, of w] holds_wal [of s es "{}" w] by simp
  have applied: "rl_inv T W rec_at readable closed wal_ok s2
      \<and> (log_holds rec_at s es \<longrightarrow> log_holds rec_at s2 (log_effect rec es))
      \<and> pc_last_evictable (sm_cache (rl_sm s2)) = pc_last_evictable (sm_cache (rl_sm s))
      \<and> log_state s2 = state_effect (log_state s) rec"
    if check: "sm_check T (rl_sm s) rec = Ok ()" and app: "wal_append W (rl_wal s) rec = (Ok (), w)"
      and s2: "s2 = s\<lparr>rl_wal := w, rl_sm := snd (sm_apply T (rl_sm s) rec (wal_open_chunk_id W w)
                                       (wal_last_segment W w))\<rparr>" for w s2
    using inv_stored [OF inv fits that] s2 sm_apply_accepted [OF check]
      touch_boundary [OF wf, of T rec "wal_open_chunk_id W w" "wal_last_segment W w"]
    by (auto simp: log_state_def)
  have all: "rl_inv T W rec_at readable closed wal_ok s'
      \<and> pc_last_evictable (sm_cache (rl_sm s')) = pc_last_evictable (sm_cache (rl_sm s))
      \<and> (log_holds rec_at s es \<longrightarrow>
           sm_check T (rl_sm s) rec = Ok () \<and> log_holds rec_at s' (log_effect rec es)
             \<and> log_state s' = state_effect (log_state s) rec
           \<or> \<not> is_ok r \<and> log_holds rec_at s' es \<and> log_state s' = log_state s)
      \<and> (is_ok r \<longrightarrow> log_state s' = state_effect (log_state s) rec)"
  proof (cases rule: write_on_wal [of T s rec W])
    case (rejected e)
    with inv run show ?thesis by auto
  next
    case (not_appended a w)
    with appended [OF not_appended(2)] run show ?thesis by (auto simp: log_state_def)
  next
    case (not_closed w s2 a w2)
    note s2 = applied [OF not_closed(1-3)]
    have "wal_try_close W (rl_wal s2) (sm_checkpoint (rl_sm s2)) = (a, w2)"
      using not_closed(3,4) by simp
    from inv_close [OF conjunct1 [OF s2] this] s2 not_closed(1,6,7) run show ?thesis
      by (auto simp: log_state_def)
  next
    case (written w s2 closed' w2 s3)
    note s2 = applied [OF written(1-3)]
    have "wal_try_close W (rl_wal s2) (sm_checkpoint (rl_sm s2)) = (Ok closed', w2)"
      using written(3,4) by simp
    note closing = inv_close [OF conjunct1 [OF s2] this]
    from inv_buffer [OF closing(1)] closing s2 written(1,5,6) run show ?thesis
      by (cases closed') (auto simp: log_state_def)
  qed
  then show "rl_inv T W rec_at readable closed wal_ok s'"
    and "r = Ok g \<Longrightarrow> log_holds rec_at s es \<Longrightarrow> log_holds rec_at s' (log_effect rec es)"
    and "log_holds rec_at s es \<Longrightarrow> log_holds rec_at s' es \<and> log_state s' = log_state s
       \<or> sm_check T (rl_sm s) rec = Ok () \<and> log_holds rec_at s' (log_effect rec es)
         \<and> log_state s' = state_effect (log_state s) rec"
    and "pc_last_evictable (sm_cache (rl_sm s')) = pc_last_evictable (sm_cache (rl_sm s))"
    and "r = Ok g \<Longrightarrow> log_state s' = state_effect (log_state s) rec" by auto
qed

section \<open>The chunks the store accounts for\<close>

text \<open>
  A closed chunk is listed by the WAL until it is set aside, and then in \<open>rl_removed\<close> until it
  is handed over: none is forgotten. What stays listed after chunks were set aside starts with
  a chunk that ends above the purge position.
\<close>

lemma buffer_exact:
  assumes ok: "wal_ok (rl_wal s)" and p: "st_purged (log_state s) = Some p"
    and left: "closed (rl_wal (buffer_removable_chunks W s)) = ck # rest"
  shows "Some p < st_last (snd ck)"
proof -
  obtain ids w where drain: "wal_drain_closed W (rl_wal s) (\<lambda>k. st_last k \<le> Some p) = (ids, w)"
    by fastforce
  from drain_law [OF ok this]
  have "closed w = dropWhile (\<lambda>ck. st_last (snd ck) \<le> Some p) (closed (rl_wal s))" by blast
  moreover have "closed w = ck # rest"
    using left p drain by (simp add: buffer_removable_chunks_def)
  ultimately have "dropWhile (\<lambda>ck. st_last (snd ck) \<le> Some p) (closed (rl_wal s)) = ck # rest"
    by simp
  then show ?thesis by (simp add: dropWhile_eq_Cons_conv not_le)
qed

lemma buffer_conserves:
  assumes ok: "wal_ok (rl_wal s)"
  shows "wal_ok (rl_wal (buffer_removable_chunks W s))
     \<and> chunks_of closed (buffer_removable_chunks W s) = chunks_of closed s"
proof (cases "st_purged (log_state s)")
  case None
  with ok show ?thesis by (simp add: buffer_removable_chunks_def)
next
  case (Some p)
  let ?P = "\<lambda>ck. st_last (snd ck) \<le> Some p"
  obtain ids w where drain: "wal_drain_closed W (rl_wal s) (\<lambda>k. st_last k \<le> Some p) = (ids, w)"
    by fastforce
  note law = drain_law [OF ok drain]
  have "set (closed (rl_wal s)) = set (takeWhile ?P (closed (rl_wal s))) \<union> set (dropWhile ?P (closed (rl_wal s)))"
    by (metis set_append takeWhile_dropWhile_id)
  then have "fst ` set (closed (rl_wal s)) = set ids \<union> fst ` set (closed w)"
    using law by (simp add: image_Un)
  then show ?thesis
    using Some drain law by (simp add: buffer_removable_chunks_def chunks_of_def Un_assoc)
qed

lemma write_conserves:
  assumes ok: "wal_ok (rl_wal s)" and run: "append_and_apply T W rec s = (r, s')"
  shows "chunks_of closed s \<subseteq> chunks_of closed s'"
proof (cases rule: write_on_wal [of T s rec W])
  case (rejected e)
  with run show ?thesis by simp
next
  case (not_appended a w)
  with append_law [OF ok not_appended(2)] run show ?thesis by (auto simp: chunks_of_def)
next
  case (not_closed w s2 a w2)
  have "wal_ok w" "closed w = closed (rl_wal s)" using append_law [OF ok not_closed(2)] by auto
  with close_law [OF _ not_closed(4)] not_closed(3,7) run show ?thesis by (auto simp: chunks_of_def)
next
  case (written w s2 did w2 s3)
  have "wal_ok w" "closed w = closed (rl_wal s)" using append_law [OF ok written(2)] by auto
  with close_law [OF _ written(4)] written(3)
  have "wal_ok w2 \<and> chunks_of closed s \<subseteq> chunks_of closed (s2\<lparr>rl_wal := w2\<rparr>)"
    by (auto simp: chunks_of_def)
  with buffer_conserves [of "s2\<lparr>rl_wal := w2\<rparr>"] written(5,6) run show ?thesis by (cases did) auto
qed

end

end
