(* ===== verification/Raft_Ops.thy ===== *)
theory Raft_Ops imports Raft_Store
begin

text \<open>
  Each operation of the write and read API over the abstract log, and the store as a state
  machine: \<open>rl_step\<close> has one rule per operation, and one for the flush worker's progress and
  its callback, with the condition under which the store stays sound. Every reachable store
  satisfies \<open>rl_inv\<close>, and a run of the store is a run of the abstract log.
\<close>

section \<open>The conditions of the operations\<close>

text \<open>
  An entry may be appended when its index has a successor and its id is above the eviction
  boundary; a purge names an entry, a position past the log, or what is purged already.
\<close>

definition appendable ::
  "('l::linorder, 'p, 'v) raft_types \<Rightarrow> ('l, 'p, 'v, 'u, 'w, 'c, 'g, 'wc) raft_log
     \<Rightarrow> 'l \<Rightarrow> bool" where
  "appendable T s l \<longleftrightarrow> has_next T (Some l) \<and> \<not> evictable (sm_cache (rl_sm s)) l"

definition purgeable ::
  "('l::linorder, 'p, 'v) raft_types \<Rightarrow> ('l, 'p, 'v, 'u, 'w, 'c, 'g, 'wc) raft_log
     \<Rightarrow> 'l \<Rightarrow> bool" where
  "purgeable T s l \<longleftrightarrow>
     log_index T l < next_log_index T (st_purged (log_state s)) \<or> purge_point T (rl_sm s) l"

text \<open>A declared state that passes the check of \<open>update_state\<close> must fit the log.\<close>

definition declarable ::
  "('l::linorder, 'p, 'v) raft_types \<Rightarrow> ('l, 'p, 'v, 'u, 'w, 'c, 'g, 'wc) raft_log
     \<Rightarrow> ('l, 'v, 'u) raft_log_state \<Rightarrow> bool" where
  "declarable T s st \<longleftrightarrow>
     (check_checkpoint T (rl_sm s) st = Ok () \<longrightarrow> checkpoint_point T (rl_sm s) st)"

text \<open>
  The callback may report a checkpoint when every live entry at or below it is readable:
  the chunks up to that checkpoint are on disk.
\<close>

definition persisted_upto ::
  "('w \<Rightarrow> 'c \<Rightarrow> bool) \<Rightarrow> ('l::linorder, 'p, 'v, 'u, 'w, 'c, 'g, 'wc) raft_log
     \<Rightarrow> ('l, 'v, 'u) raft_log_state option \<Rightarrow> bool" where
  "persisted_upto readable s ck \<longleftrightarrow>
     (\<forall>k. ck = Some k \<longrightarrow>
        (\<forall>e \<in> set (sm_log (rl_sm s)).
           Some (entry_id e) \<le> st_last k \<longrightarrow> readable (rl_wal s) (ld_chunk_id (snd e))))"

definition worker_callback ::
  "('l, 'v, 'u) raft_log_state option \<Rightarrow> ('l, 'p, 'v, 'u, 'w, 'c, 'g, 'wc) raft_log
     \<Rightarrow> ('l, 'p, 'v, 'u, 'w, 'c, 'g, 'wc) raft_log" where
  "worker_callback ck s =
     s\<lparr>rl_sm := (rl_sm s)\<lparr>sm_cache := on_chunk_persisted ck (sm_cache (rl_sm s))\<rparr>\<rparr>"

text \<open>
  What a run of the store is an instance of: the log state and the abstract log take one
  accepted record after the other. \<open>A\<close> says which declared states (checkpoint records) are
  looked at; it must admit a change of the user data. Then what every operation of the store
  must guarantee.
\<close>

inductive accepted ::
  "('l::linorder, 'p, 'v::order) raft_types
     \<Rightarrow> (('l, 'v, 'u) raft_log_state \<Rightarrow> ('l, 'v, 'u) raft_log_state \<Rightarrow> bool)
     \<Rightarrow> ('l, 'v, 'u) raft_log_state \<times> ('l \<times> 'p) list
     \<Rightarrow> ('l, 'v, 'u) raft_log_state \<times> ('l \<times> 'p) list \<Rightarrow> bool"
  for T A where
  accept:
    "state_check T st rec = Ok () \<Longrightarrow> (\<And>k. rec = Checkpoint k \<Longrightarrow> A st k) \<Longrightarrow>
       accepted T A (st, es) (state_effect st rec, log_effect rec es)"

definition admits_user_data ::
  "(('l, 'v, 'u) raft_log_state \<Rightarrow> ('l, 'v, 'u) raft_log_state \<Rightarrow> bool) \<Rightarrow> bool" where
  "admits_user_data A \<longleftrightarrow> (\<forall>st u. A st (st\<lparr>st_user_data := u\<rparr>))"

definition follows ::
  "('l::linorder, 'p, 'v::order) raft_types
     \<Rightarrow> (('l, 'v, 'u) raft_log_state \<Rightarrow> ('l, 'v, 'u) raft_log_state \<Rightarrow> bool)
     \<Rightarrow> ('l, 'p, 'v, 'u, 'w, 'c::linorder, 'g, 'cb) raft_wal
     \<Rightarrow> ('w \<Rightarrow> 'c \<Rightarrow> 'g \<Rightarrow> ('l, 'p, 'v, 'u) raft_record option) \<Rightarrow> ('w \<Rightarrow> 'c \<Rightarrow> bool)
     \<Rightarrow> ('w \<Rightarrow> ('c \<times> ('l, 'v, 'u) raft_log_state) list) \<Rightarrow> ('w \<Rightarrow> bool)
     \<Rightarrow> ('l, 'v, 'u) raft_log_state \<times> ('l \<times> 'p) list
     \<Rightarrow> ('l, 'p, 'v, 'u, 'w, 'c, 'g, 'wc) raft_log \<Rightarrow> bool" where
  "follows T A W rec_at readable closed wal_ok a s' \<longleftrightarrow>
     rl_inv T W rec_at readable closed wal_ok s'
     \<and> (\<exists>es'. (accepted T A)\<^sup>*\<^sup>* a (log_state s', es') \<and> log_holds rec_at s' es')"

text \<open>
  One step of a store in use: an operation of the API, whatever its outcome, the flush
  worker making progress, or its callback.
\<close>

inductive rl_step ::
  "('l::linorder, 'p, 'v::order) raft_types
     \<Rightarrow> (('l, 'v, 'u) raft_log_state \<Rightarrow> ('l, 'v, 'u) raft_log_state \<Rightarrow> bool)
     \<Rightarrow> ('l, 'p, 'v, 'u, 'w, 'c::linorder, 'g, 'cb) raft_wal
     \<Rightarrow> ('w \<Rightarrow> 'c \<Rightarrow> 'g \<Rightarrow> ('l, 'p, 'v, 'u) raft_record option) \<Rightarrow> ('w \<Rightarrow> 'c \<Rightarrow> bool)
     \<Rightarrow> ('w \<Rightarrow> ('c \<times> ('l, 'v, 'u) raft_log_state) list) \<Rightarrow> ('w \<Rightarrow> bool)
     \<Rightarrow> ('l, 'p, 'v, 'u, 'w, 'c, 'g, 'wc) raft_log
     \<Rightarrow> ('l, 'p, 'v, 'u, 'w, 'c, 'g, 'wc) raft_log \<Rightarrow> bool"
  for T A W rec_at readable closed wal_ok where
  step_vote: "save_vote T W v s = (r, s') \<Longrightarrow> rl_step T A W rec_at readable closed wal_ok s s'"
| step_user_data:
    "save_user_data T W u s = (r, s') \<Longrightarrow> rl_step T A W rec_at readable closed wal_ok s s'"
| step_append:
    "rl_append T W new s = (r, s') \<Longrightarrow> \<forall>x \<in> set new. appendable T s (fst x) \<Longrightarrow>
       rl_step T A W rec_at readable closed wal_ok s s'"
| step_truncate:
    "rl_truncate T W i s = (r, s') \<Longrightarrow> rl_step T A W rec_at readable closed wal_ok s s'"
| step_purge:
    "rl_purge T W l s = (r, s') \<Longrightarrow> purgeable T s l \<Longrightarrow>
       rl_step T A W rec_at readable closed wal_ok s s'"
| step_commit:
    "rl_commit T W l s = (r, s') \<Longrightarrow> rl_step T A W rec_at readable closed wal_ok s s'"
| step_flush:
    "rl_flush W sync cb s = (ru, s') \<Longrightarrow> rl_step T A W rec_at readable closed wal_ok s s'"
| step_update:
    "update_state T W st s = (r, s') \<Longrightarrow> declarable T s st \<Longrightarrow>
       A (log_state s) st \<Longrightarrow> rl_step T A W rec_at readable closed wal_ok s s'"
| step_read:
    "rl_read W lo hi s = (items, s') \<Longrightarrow> rl_step T A W rec_at readable closed wal_ok s s'"
| step_drain:
    "rl_step T A W rec_at readable closed wal_ok s (drain_cache_evictable T s)"
| step_worker:
    "wal_ok w \<Longrightarrow> wal_extends rec_at readable {} (rl_wal s) w \<Longrightarrow>
       closed w = closed (rl_wal s) \<Longrightarrow> wal_open_chunk_id W w = wal_open_chunk_id W (rl_wal s) \<Longrightarrow>
       rl_step T A W rec_at readable closed wal_ok s (s\<lparr>rl_wal := w\<rparr>)"
| step_persisted:
    "persisted_upto readable s ck \<Longrightarrow>
       rl_step T A W rec_at readable closed wal_ok s (worker_callback ck s)"

section \<open>The operations, one by one\<close>

lemma holds_fst:
  assumes "log_holds rec_at s es"
  shows "map fst es = map entry_id (sm_log (rl_sm s))"
  using assms by (simp add: log_holds_def list_all2_conv_all_nth list_eq_iff_nth_eq)

lemma truncate_target_fits:
  fixes s :: "('l::linorder, 'p, 'v::order, 'u, 'w, 'c, 'g, 'wc) raft_log"
  assumes inv: "sm_inv T (rl_sm s)" and target: "truncate_target T i s = Ok keep"
  shows "truncate_point (rl_sm s) keep"
proof (cases "i = next_log_index T (st_purged (log_state s))")
  case True
  with target show ?thesis by (simp add: truncate_target_def truncate_point_def log_state_def)
next
  case False
  then obtain l where l: "get_log_id s (i - 1) = Ok l" "keep = Some l"
    using target by (auto simp: truncate_target_def Let_def and_then_eq_Ok split: if_splits)
  then obtain d where d: "bt_get (sm_log (rl_sm s)) (i - 1) = Some d" "l = ld_log_id d"
    by (auto simp: get_log_id_def split: option.splits)
  have "bt_wf (sm_log (rl_sm s))" using inv by (simp add: sm_inv_def log_wf_def)
  with d(1) have "(i - 1, d) \<in> set (sm_log (rl_sm s))" by (simp add: bt_get_Some_iff)
  with d(2) l(2) show ?thesis by (force simp: truncate_point_def)
qed

lemma write_Ok_checked:
  "append_and_apply T W rec s = (Ok g, s') \<Longrightarrow> sm_check T (rl_sm s) rec = Ok ()"
  by (cases rule: write_on_wal [of T s rec W]) auto

lemma checked_cases:
  obtains a where "r = Ok a" and "sbind (checked T r s) f = f a s"
  | "\<not> is_ok r" and "snd (sbind (checked T r s) f) = s" and "\<not> is_ok (fst (sbind (checked T r s) f))"
  by (cases r) (simp_all add: checked_def that)

context raft_wal
begin

text \<open>What an operation must guarantee: the invariant, and a list of abstract effects.\<close>

lemma stays_follows:
  "rl_inv T W rec_at readable closed wal_ok s \<Longrightarrow> log_holds rec_at s es \<Longrightarrow>
     follows T A W rec_at readable closed wal_ok (log_state s, es) s"
  by (auto simp: follows_def)

lemma same_follows:
  "rl_inv T W rec_at readable closed wal_ok s' \<Longrightarrow> log_holds rec_at s' es \<Longrightarrow>
     log_state s' = log_state s \<Longrightarrow>
     follows T A W rec_at readable closed wal_ok (log_state s, es) s'"
  by (metis stays_follows)

lemma follows_trans:
  assumes "follows T A W rec_at readable closed wal_ok a s1"
    and "\<And>es1. log_holds rec_at s1 es1 \<Longrightarrow> rl_inv T W rec_at readable closed wal_ok s1 \<Longrightarrow>
       follows T A W rec_at readable closed wal_ok (log_state s1, es1) s2"
  shows "follows T A W rec_at readable closed wal_ok a s2"
proof -
  from assms(1) obtain es1 where es1: "(accepted T A)\<^sup>*\<^sup>* a (log_state s1, es1)"
    "log_holds rec_at s1 es1" "rl_inv T W rec_at readable closed wal_ok s1" by (auto simp: follows_def)
  from assms(2) [OF es1(2,3)] obtain es2 where
    "(accepted T A)\<^sup>*\<^sup>* (log_state s1, es1) (log_state s2, es2)" "log_holds rec_at s2 es2"
    "rl_inv T W rec_at readable closed wal_ok s2" by (auto simp: follows_def)
  with rtranclp_trans [OF es1(1)] show ?thesis unfolding follows_def by blast
qed

lemma write_follows:
  assumes inv: "rl_inv T W rec_at readable closed wal_ok s" and holds: "log_holds rec_at s es"
    and fits: "write_fits T s rec" and run: "append_and_apply T W rec s = (r, s')"
    and adm: "\<And>k. rec = Checkpoint k \<Longrightarrow> A (log_state s) k"
  shows "follows T A W rec_at readable closed wal_ok (log_state s, es) s'"
proof -
  note w = write_inv(1) [OF inv fits run] write_inv(3) [OF inv fits run holds]
  have "accepted T A (log_state s, es) (state_effect (log_state s) rec, log_effect rec es)"
    if "sm_check T (rl_sm s) rec = Ok ()"
    by (rule accept) (use that adm in \<open>auto simp: sm_check_def log_state_def\<close>)
  with w show ?thesis unfolding follows_def by (metis r_into_rtranclp rtranclp.rtrancl_refl)
qed

lemma append_all:
  assumes "rl_inv T W rec_at readable closed wal_ok s" and "log_holds rec_at s es"
    and "\<forall>x \<in> set new. appendable T s (fst x)" and "rl_append T W new s = (r, s')"
  shows "\<exists>n \<le> length new. log_holds rec_at s' (es @ take n new) \<and> (is_ok r \<longrightarrow> n = length new)"
  using assms
proof (induction new arbitrary: s es)
  case Nil
  then show ?case by auto
next
  case (Cons x new)
  obtain l p where x: "x = (l, p)" by (cases x)
  let ?rec = "Action (Append l p) :: ('l, 'p, 'v, 'u) raft_record"
  obtain r1 s1 where one: "append_and_apply T W ?rec s = (r1, s1)" by fastforce
  have fits: "write_fits T s ?rec"
    using Cons.prems(3) x by (simp add: write_fits_def appendable_def)
  note w = write_inv [OF Cons.prems(1) fits one]
  have failed: ?case if "\<not> is_ok r1"
  proof -
    from that have "s' = s1" "\<not> is_ok r" using Cons.prems(4) x one by (cases r1; auto)+
    moreover have "log_holds rec_at s1 es \<or> log_holds rec_at s1 (es @ [x])"
      using w(3) [OF Cons.prems(2)] x by auto
    ultimately show ?thesis by (auto intro: exI [of _ 0] exI [of _ 1])
  qed
  show ?case
  proof (cases r1)
    case (Ok g)
    have "log_holds rec_at s1 (es @ [x])" using w(2) [OF Ok Cons.prems(2)] x by simp
    moreover have "\<forall>x \<in> set new. appendable T s1 (fst x)"
      using Cons.prems(3) w(4) by (simp add: appendable_def evictable_def)
    moreover have "rl_append T W new s1 = (r, s')"
      using Cons.prems(4) x one Ok by simp
    ultimately obtain n where "n \<le> length new" "log_holds rec_at s' ((es @ [x]) @ take n new)"
      "is_ok r \<longrightarrow> n = length new"
      using Cons.IH [OF w(1)] by blast
    then show ?thesis by (intro exI [of _ "Suc n"]) auto
  qed (use failed in simp_all)
qed

lemma append_follows:
  assumes "rl_inv T W rec_at readable closed wal_ok s" and "log_holds rec_at s es"
    and "\<forall>x \<in> set new. appendable T s (fst x)" and "rl_append T W new s = (r, s')"
  shows "follows T A W rec_at readable closed wal_ok (log_state s, es) s'"
  using assms
proof (induction new arbitrary: s es)
  case Nil
  then show ?case by (simp add: stays_follows)
next
  case (Cons x new)
  obtain l p where x: "x = (l, p)" by (cases x)
  let ?rec = "Action (Append l p) :: ('l, 'p, 'v, 'u) raft_record"
  obtain r1 s1 where one: "append_and_apply T W ?rec s = (r1, s1)" by fastforce
  have fits: "write_fits T s ?rec"
    using Cons.prems(3) x by (simp add: write_fits_def appendable_def)
  note w = write_follows [OF Cons.prems(1,2) fits one, where A = A, simplified]
  show ?case
  proof (cases r1)
    case (Ok g)
    have more: "\<forall>x \<in> set new. appendable T s1 (fst x)"
      using Cons.prems(3) write_inv(4) [OF Cons.prems(1) fits one]
      by (simp add: appendable_def evictable_def)
    have run: "rl_append T W new s1 = (r, s')" using Cons.prems(4) x one Ok by simp
    from Cons.IH [OF _ _ more run] show ?thesis by (rule follows_trans [OF w])
  qed (use Cons.prems(4) x one w in simp_all)
qed

lemma vote_follows:
  assumes "rl_inv T W rec_at readable closed wal_ok s" and "log_holds rec_at s es"
    and "save_vote T W v s = (r, s')"
  shows "follows T A W rec_at readable closed wal_ok (log_state s, es) s'"
  using assms write_follows [of T s es "Action (SaveVote v)"]
  by (simp add: save_vote_def write_fits_def)

lemma commit_follows:
  assumes "rl_inv T W rec_at readable closed wal_ok s" and "log_holds rec_at s es"
    and "rl_commit T W l s = (r, s')"
  shows "follows T A W rec_at readable closed wal_ok (log_state s, es) s'"
  using assms write_follows [of T s es "Action (Commit l)"]
  by (simp add: rl_commit_def write_fits_def)

lemma user_data_follows:
  assumes inv: "rl_inv T W rec_at readable closed wal_ok s" and "log_holds rec_at s es"
    and run: "save_user_data T W u s = (r, s')" and adm: "admits_user_data A"
  shows "follows T A W rec_at readable closed wal_ok (log_state s, es) s'"
proof -
  let ?rec = "Checkpoint ((sm_checkpoint (rl_sm s))\<lparr>st_user_data := u\<rparr>) :: ('l, 'p, 'v, 'u) raft_record"
  have "sm_inv T (rl_sm s)" using inv by (simp add: rl_inv_def)
  then have "write_fits T s ?rec"
    by (simp add: write_fits_def checkpoint_point_def sm_checkpoint_def sm_inv_def)
  from write_follows [OF assms(1,2) this] run adm show ?thesis
    by (simp add: save_user_data_def admits_user_data_def sm_checkpoint_def log_state_def)
qed

lemma truncate_follows:
  assumes inv: "rl_inv T W rec_at readable closed wal_ok s" and "log_holds rec_at s es"
    and run: "rl_truncate T W i s = (r, s')"
  shows "follows T A W rec_at readable closed wal_ok (log_state s, es) s'"
proof (cases rule: checked_cases [of "truncate_target T i s" T s
      "\<lambda>keep s. append_and_apply T W (Action (TruncateAfter keep)) s"])
  case (1 keep)
  have "sm_inv T (rl_sm s)" using inv by (simp add: rl_inv_def)
  from truncate_target_fits [OF this 1(1)]
  have "write_fits T s (Action (TruncateAfter keep))" by (simp add: write_fits_def)
  from write_follows [OF assms(1,2) this] run 1(2) show ?thesis by (simp add: rl_truncate_def)
next
  case 2
  with run have "s' = s" by (simp add: rl_truncate_def)
  with assms(1,2) show ?thesis by (simp add: stays_follows)
qed

lemma purge_follows:
  assumes inv: "rl_inv T W rec_at readable closed wal_ok s" and "log_holds rec_at s es"
    and "purgeable T s l" and run: "rl_purge T W l s = (r, s')"
  shows "follows T A W rec_at readable closed wal_ok (log_state s, es) s'"
proof (cases "log_index T l < next_log_index T (st_purged (log_state s))")
  case True
  with run have "s' = s" by (simp add: rl_purge_def)
  with assms(1,2) show ?thesis by (simp add: stays_follows)
next
  case False
  then have fits: "write_fits T s (Action (PurgeUpto l))"
    using assms(3) by (simp add: write_fits_def purgeable_def)
  obtain r1 s1 where one: "append_and_apply T W (Action (PurgeUpto l)) s = (r1, s1)" by fastforce
  have "follows T A W rec_at readable closed wal_ok (log_state s, es) s1"
    by (rule write_follows [OF assms(1,2) fits one]) simp
  moreover have "follows T A W rec_at readable closed wal_ok (log_state s1, es1) s'"
    if "log_holds rec_at s1 es1" "rl_inv T W rec_at readable closed wal_ok s1" for es1
  proof -
    have "s' = s1 \<or> s' = buffer_removable_chunks W s1"
      using run False one by (cases r1) (auto simp: rl_purge_def)
    moreover have "log_state (buffer_removable_chunks W s1) = log_state s1"
      using inv_buffer(3) [OF that(2)] by (simp add: log_state_def)
    ultimately show ?thesis
      using inv_buffer(1) [OF that(2)] inv_buffer(2) [OF that(2,1)] that by (auto simp: follows_def)
  qed
  ultimately show ?thesis by (rule follows_trans)
qed

lemma update_follows:
  assumes inv: "rl_inv T W rec_at readable closed wal_ok s" and "log_holds rec_at s es"
    and pt: "declarable T s st" and run: "update_state T W st s = (r, s')"
    and adm: "A (log_state s) st"
  shows "follows T A W rec_at readable closed wal_ok (log_state s, es) s'"
proof (cases rule: checked_cases [of "check_checkpoint T (rl_sm s) st" T s
      "\<lambda>_ s. append_and_apply T W (Checkpoint st) s"])
  case (1 u)
  have "write_fits T s (Checkpoint st)"
    using pt 1(1) by (simp add: write_fits_def declarable_def)
  from write_follows [OF assms(1,2) this] run 1(2) adm show ?thesis by (simp add: update_state_def)
next
  case 2
  with run have "s' = s" by (simp add: update_state_def)
  with assms(1,2) show ?thesis by (simp add: stays_follows)
qed

text \<open>Flushing may delete the buffered chunks, none of which holds a live entry.\<close>

lemma inv_send_remove:
  assumes inv: "rl_inv T W rec_at readable closed wal_ok s"
    and send: "wal_send_remove W (rl_wal s) (rl_removed s) = (r, w)"
  shows "rl_inv T W rec_at readable closed wal_ok (s\<lparr>rl_removed := [], rl_wal := w\<rparr>)"
    and "log_holds rec_at s es \<Longrightarrow> log_holds rec_at (s\<lparr>rl_removed := [], rl_wal := w\<rparr>) es"
proof -
  have ok: "wal_ok (rl_wal s)" using inv by (simp add: rl_inv_def)
  have law: "wal_ok w" "wal_extends rec_at readable (set (rl_removed s)) (rl_wal s) w"
    "closed w = closed (rl_wal s)" "wal_open_chunk_id W w = wal_open_chunk_id W (rl_wal s)"
    using send_remove_law [OF ok send] by blast+
  have live: "ld_chunk_id (snd e) \<notin> set (rl_removed s)" if "e \<in> set (sm_log (rl_sm s))" for e
    using inv that by (simp add: rl_inv_def entry_ok_def)
  have "entry_ok rec_at readable closed [] w (sm_cache (rl_sm s)) (snd e)"
    if e: "e \<in> set (sm_log (rl_sm s))" for e
  proof -
    have "entry_ok rec_at readable closed (rl_removed s) (rl_wal s) (sm_cache (rl_sm s)) (snd e)"
      using inv e by (simp add: rl_inv_def)
    then have "entry_ok rec_at readable closed (rl_removed s) w (sm_cache (rl_sm s)) (snd e)"
      by (rule entry_ok_wal [OF _ law(2) live [OF e]]) (simp add: law(3))
    then show ?thesis by (simp add: entry_ok_def)
  qed
  with inv law show "rl_inv T W rec_at readable closed wal_ok (s\<lparr>rl_removed := [], rl_wal := w\<rparr>)"
    by (simp add: rl_inv_def)
  show "log_holds rec_at (s\<lparr>rl_removed := [], rl_wal := w\<rparr>) es" if "log_holds rec_at s es"
    using holds_wal [OF that law(2)] live by (simp add: log_holds_def)
qed

lemma flush_inv_holds:
  assumes inv: "rl_inv T W rec_at readable closed wal_ok s" and holds: "log_holds rec_at s es"
    and run: "rl_flush W sync cb s = (r, s')"
  shows "rl_inv T W rec_at readable closed wal_ok s' \<and> log_holds rec_at s' es"
proof -
  obtain r1 w where send: "wal_send_pending W (rl_wal s) sync cb = (r1, w)" by fastforce
  let ?s1 = "s\<lparr>rl_wal := w\<rparr>"
  have ok: "wal_ok (rl_wal s)" using inv by (simp add: rl_inv_def)
  have law: "wal_ok w" "wal_extends rec_at readable {} (rl_wal s) w"
    "closed w = closed (rl_wal s)" "wal_open_chunk_id W w = wal_open_chunk_id W (rl_wal s)"
    using send_pending_law [OF ok send] by blast+
  have inv1: "rl_inv T W rec_at readable closed wal_ok ?s1" by (rule inv_wal_same [OF inv law])
  have holds1: "log_holds rec_at ?s1 es" by (rule holds_wal [OF holds law(2)]) simp
  obtain r2 w2 where remove: "wal_send_remove W w (rl_removed s) = (r2, w2)" by fastforce
  have "s' = ?s1 \<or> s' = ?s1\<lparr>rl_removed := [], rl_wal := w2\<rparr>"
    using run send remove by (cases r1) (auto simp: rl_flush_def on_wal_def Let_def split: if_splits)
  then show ?thesis
    using inv1 holds1 inv_send_remove [OF inv1, of r2 w2] remove by auto
qed

lemma flush_sm: "rl_flush W sync cb s = (r, s') \<Longrightarrow> rl_sm s' = rl_sm s"
  by (cases "fst (wal_send_pending W (rl_wal s) sync cb)")
    (auto simp: rl_flush_def on_wal_def Let_def split: if_splits)

lemma flush_follows:
  assumes "rl_inv T W rec_at readable closed wal_ok s" and "log_holds rec_at s es"
    and "rl_flush W sync cb s = (r, s')"
  shows "follows T A W rec_at readable closed wal_ok (log_state s, es) s'"
  using flush_inv_holds [OF assms] flush_sm [OF assms(3)]
  by (intro same_follows) (simp_all add: log_state_def)

text \<open>Reading: every entry of the range, its payload, and nothing changed but the counters.\<close>

lemma read_entry_ok:
  assumes inv: "rl_inv T W rec_at readable closed wal_ok s" and e: "e \<in> set (sm_log (rl_sm s))"
    and p: "placed rec_at (rl_wal s) (snd e) p"
  obtains a where "read_entry W (snd e) s = (Ok (entry_id e, p), s\<lparr>rl_access := a\<rparr>)"
proof (cases "cache_get (sm_cache (rl_sm s)) (entry_id e)")
  case (Some q)
  then have "q = p" using inv e p by (auto simp: rl_inv_def entry_ok_def placed_def)
  with Some that show ?thesis by (simp add: read_entry_def count_hit_def)
next
  case None
  then have "readable (rl_wal s) (ld_chunk_id (snd e))" "wal_ok (rl_wal s)"
    using inv e by (auto simp: rl_inv_def entry_ok_def)
  then have "wal_load_record W (rl_wal s) (ld_chunk_id (snd e)) (ld_segment (snd e)) =
      Ok (Action (Append (entry_id e) p))"
    using load_law p by (simp add: placed_def)
  with None that show ?thesis by (simp add: read_entry_def count_miss_def)
qed

lemma inv_access: "rl_inv T W rec_at readable closed wal_ok (s\<lparr>rl_access := a\<rparr>) =
    rl_inv T W rec_at readable closed wal_ok s"
  by (simp add: rl_inv_def)

lemma read_items_ok:
  assumes "rl_inv T W rec_at readable closed wal_ok s" and "set ds \<subseteq> set (sm_log (rl_sm s))"
    and "list_all2 (\<lambda>e x. entry_id e = fst x \<and> placed rec_at (rl_wal s) (snd e) (snd x)) ds xs"
  obtains a where "read_items W ds s = (map Ok xs, s\<lparr>rl_access := a\<rparr>)"
  using assms
proof (induction ds arbitrary: s xs thesis)
  case Nil
  then show ?case by (auto intro: Nil.prems(1) [of "rl_access s"])
next
  case (Cons d ds)
  then obtain x ys where xs: "xs = x # ys" "entry_id d = fst x"
    "placed rec_at (rl_wal s) (snd d) (snd x)"
    and rest: "list_all2 (\<lambda>e x. entry_id e = fst x \<and> placed rec_at (rl_wal s) (snd e) (snd x)) ds ys"
    by (auto simp: list_all2_Cons1)
  have "d \<in> set (sm_log (rl_sm s))" using Cons.prems(3) by simp
  from read_entry_ok [OF Cons.prems(2) this xs(3)] obtain a where
    one: "read_entry W (snd d) s = (Ok x, s\<lparr>rl_access := a\<rparr>)" using xs(2) by auto
  obtain b where "read_items W ds (s\<lparr>rl_access := a\<rparr>) = (map Ok ys, s\<lparr>rl_access := b\<rparr>)"
    using Cons.IH [of "s\<lparr>rl_access := a\<rparr>" ys] Cons.prems(2,3) rest by (auto simp: inv_access)
  with one xs(1) Cons.prems(1) show ?case by (cases d) auto
qed

lemma range_holds:
  assumes inv: "rl_inv T W rec_at readable closed wal_ok s" and holds: "log_holds rec_at s es"
  shows "list_all2 (\<lambda>e x. entry_id e = fst x \<and> placed rec_at (rl_wal s) (snd e) (snd x))
     (filter (\<lambda>e. lo \<le> fst e \<and> fst e < hi) (sm_log (rl_sm s)))
     (filter (\<lambda>x. lo \<le> log_index T (fst x) \<and> log_index T (fst x) < hi) es)"
proof -
  let ?R = "\<lambda>e x. entry_id e = fst x \<and> placed rec_at (rl_wal s) (snd e) (snd x)"
  let ?log = "sm_log (rl_sm s)"
  have wf: "log_wf T ?log" using inv by (simp add: rl_inv_def sm_inv_def)
  have "list_all2 ?R ?log es" using holds by (simp add: log_holds_def)
  then have "list_all2 (\<lambda>e x. ?R e x \<and> fst e = log_index T (entry_id e)) ?log es"
    by (rule list.rel_mono_strong) (use log_wf_key [OF wf] in simp)
  then have "list_all2 (\<lambda>e x. ?R e x \<and> fst e = log_index T (entry_id e))
      (filter (\<lambda>e. lo \<le> fst e \<and> fst e < hi) ?log)
      (filter (\<lambda>x. lo \<le> log_index T (fst x) \<and> log_index T (fst x) < hi) es)"
    by (rule all2_filter) simp
  then show ?thesis by (rule list.rel_mono_strong) simp
qed

lemma read_ok:
  assumes inv: "rl_inv T W rec_at readable closed wal_ok s" and holds: "log_holds rec_at s es"
    and "lo \<le> hi"
  obtains a where "rl_read W lo hi s =
     (Ok (map Ok (filter (\<lambda>x. lo \<le> log_index T (fst x) \<and> log_index T (fst x) < hi) es)),
      s\<lparr>rl_access := a\<rparr>)"
proof -
  let ?ds = "filter (\<lambda>e. lo \<le> fst e \<and> fst e < hi) (sm_log (rl_sm s))"
  obtain a where "read_items W ?ds s =
      (map Ok (filter (\<lambda>x. lo \<le> log_index T (fst x) \<and> log_index T (fst x) < hi) es), s\<lparr>rl_access := a\<rparr>)"
    by (rule read_items_ok [OF inv _ range_holds [OF inv holds]]) auto
  then show ?thesis
    using \<open>lo \<le> hi\<close> by (intro that [of a]) (simp add: rl_read_def bt_range_def)
qed

lemma inv_cache:
  assumes inv: "rl_inv T W rec_at readable closed wal_ok s" and wf: "cache_wf cache"
    and entries: "\<And>e. e \<in> set (sm_log (rl_sm s)) \<Longrightarrow>
       entry_ok rec_at readable closed (rl_removed s) (rl_wal s) cache (snd e)"
  shows "rl_inv T W rec_at readable closed wal_ok (s\<lparr>rl_sm := (rl_sm s)\<lparr>sm_cache := cache\<rparr>\<rparr>)"
proof -
  have "sm_inv T ((rl_sm s)\<lparr>sm_cache := cache\<rparr>)"
    by (rule sm_inv_frame [of T "rl_sm s"]) (use inv in \<open>simp_all add: rl_inv_def\<close>)
  with assms show ?thesis by (simp add: rl_inv_def)
qed

lemma inv_entry:
  "rl_inv T W rec_at readable closed wal_ok s \<Longrightarrow> e \<in> set (sm_log (rl_sm s)) \<Longrightarrow>
     entry_ok rec_at readable closed (rl_removed s) (rl_wal s) (sm_cache (rl_sm s)) (snd e)"
  by (simp add: rl_inv_def)

lemma drain_follows:
  assumes inv: "rl_inv T W rec_at readable closed wal_ok s" and holds: "log_holds rec_at s es"
  shows "follows T A W rec_at readable closed wal_ok (log_state s, es) (drain_cache_evictable T s)"
proof -
  let ?cache = "sm_cache (rl_sm s)"
  have wf: "cache_wf ?cache" using inv by (simp add: rl_inv_def)
  have "rl_inv T W rec_at readable closed wal_ok (drain_cache_evictable T s)"
    unfolding drain_cache_evictable_def
  proof (rule inv_cache [OF inv])
    fix e assume "e \<in> set (sm_log (rl_sm s))"
    from inv_entry [OF inv this]
    show "entry_ok rec_at readable closed (rl_removed s) (rl_wal s) (drain_evictable T ?cache) (snd e)"
      by (rule entry_ok_cache) (simp_all add: get_drain [OF wf], simp add: evictable_def)
  qed (simp add: wf)
  moreover have "log_holds rec_at (drain_cache_evictable T s) es"
    using holds by (simp add: log_holds_def drain_cache_evictable_def)
  ultimately show ?thesis
    by (rule same_follows) (simp add: drain_cache_evictable_def log_state_def)
qed

lemma persisted_follows:
  assumes inv: "rl_inv T W rec_at readable closed wal_ok s" and holds: "log_holds rec_at s es"
    and upto_k: "persisted_upto readable s ck"
  shows "follows T A W rec_at readable closed wal_ok (log_state s, es) (worker_callback ck s)"
proof (cases ck)
  case None
  with inv holds show ?thesis
    by (simp add: worker_callback_def on_chunk_persisted_def stays_follows)
next
  case (Some k)
  let ?cache = "on_chunk_persisted ck (sm_cache (rl_sm s))"
  have wf: "cache_wf (sm_cache (rl_sm s))" using inv by (simp add: rl_inv_def)
  have same: "cache_get ?cache l = cache_get (sm_cache (rl_sm s)) l" for l
    by (simp add: Some on_chunk_persisted_def get_set_last_evictable)
  have ev: "evictable ?cache l \<longleftrightarrow> Some l \<le> st_last k" for l
    by (simp add: Some on_chunk_persisted_def evictable_def set_last_evictable_def)
  have "rl_inv T W rec_at readable closed wal_ok (worker_callback ck s)"
    unfolding worker_callback_def
  proof (rule inv_cache [OF inv])
    fix e assume e: "e \<in> set (sm_log (rl_sm s))"
    have "Some (entry_id e) \<le> st_last k \<longrightarrow> readable (rl_wal s) (ld_chunk_id (snd e))"
      using upto_k e Some by (simp add: persisted_upto_def)
    with inv_entry [OF inv e]
    show "entry_ok rec_at readable closed (rl_removed s) (rl_wal s) ?cache (snd e)"
      by (simp add: entry_ok_def same ev)
  qed (simp add: Some on_chunk_persisted_def wf)
  moreover have "log_holds rec_at (worker_callback ck s) es"
    using holds by (simp add: log_holds_def worker_callback_def)
  ultimately show ?thesis by (rule same_follows) (simp add: worker_callback_def log_state_def)
qed

text \<open>Every live entry has its payload, in the order of the log.\<close>

lemma inv_holds:
  assumes "rl_inv T W rec_at readable closed wal_ok s"
  obtains es where "log_holds rec_at s es"
proof -
  have "\<exists>p. placed rec_at (rl_wal s) (snd e) p" if "e \<in> set (sm_log (rl_sm s))" for e
    using inv_entry [OF assms that] by (auto simp: entry_ok_def)
  then obtain f where "placed rec_at (rl_wal s) (snd e) (f e)" if "e \<in> set (sm_log (rl_sm s))" for e
    by metis
  then have "log_holds rec_at s (map (\<lambda>e. (entry_id e, f e)) (sm_log (rl_sm s)))"
    by (auto simp: log_holds_def list.rel_map intro!: list.rel_refl_strong)
  then show ?thesis by (rule that)
qed

lemma read_follows:
  assumes inv: "rl_inv T W rec_at readable closed wal_ok s" and holds: "log_holds rec_at s es"
    and run: "rl_read W lo hi s = (items, s')"
  shows "follows T A W rec_at readable closed wal_ok (log_state s, es) s'"
proof -
  have "\<exists>a. s' = s\<lparr>rl_access := a\<rparr>"
  proof (cases "lo \<le> hi")
    case True
    show ?thesis by (rule read_ok [OF inv holds True]) (use run in auto)
  next
    case False
    then have "s' = s" using run by (auto simp: rl_read_def bt_range_def not_le)
    then show ?thesis by (auto intro: exI [of _ "rl_access s"])
  qed
  then obtain a where s': "s' = s\<lparr>rl_access := a\<rparr>" by blast
  have "log_holds rec_at s' es" using holds by (simp add: log_holds_def s')
  then show ?thesis
    by (intro same_follows) (use inv in \<open>simp_all add: s' inv_access log_state_def\<close>)
qed

lemma step_follows:
  assumes "rl_step T A W rec_at readable closed wal_ok s s'"
    and "rl_inv T W rec_at readable closed wal_ok s" and "log_holds rec_at s es"
    and adm: "admits_user_data A"
  shows "follows T A W rec_at readable closed wal_ok (log_state s, es) s'"
  using assms(1)
proof cases
  case (step_user_data u r)
  then show ?thesis using user_data_follows assms(2-4) by blast
next
  case (step_worker w)
  with inv_wal_same [OF assms(2) step_worker(2-5)] holds_wal [OF assms(3) step_worker(3)]
  show ?thesis by (intro same_follows) (simp_all add: log_state_def)
qed (use assms(2,3) in \<open>auto intro: vote_follows append_follows truncate_follows
    purge_follows commit_follows flush_follows update_follows read_follows drain_follows
    persisted_follows\<close>)

lemma steps_follow:
  assumes "(rl_step T A W rec_at readable closed wal_ok)\<^sup>*\<^sup>* s s'"
    and inv: "rl_inv T W rec_at readable closed wal_ok s" and holds: "log_holds rec_at s es"
    and adm: "admits_user_data A"
  shows "follows T A W rec_at readable closed wal_ok (log_state s, es) s'"
  using assms(1)
proof (induction rule: rtranclp_induct)
  case base
  show ?case by (rule stays_follows [OF inv holds])
next
  case (step s1 s2)
  show ?case
    by (rule follows_trans [OF step.IH]) (rule step_follows [OF step.hyps(2) _ _ adm])
qed

end

section \<open>What runs of accepted records keep\<close>

text \<open>
  \<open>never_back\<close> admits the declared states that take back neither the commit position nor the
  purge position.
\<close>

definition never_back ::
  "('l::linorder, 'v, 'u) raft_log_state \<Rightarrow> ('l, 'v, 'u) raft_log_state \<Rightarrow> bool" where
  "never_back st k \<longleftrightarrow> st_committed st \<le> st_committed k \<and> st_purged st \<le> st_purged k"

lemma never_back_user_data: "admits_user_data never_back"
  by (simp add: admits_user_data_def never_back_def)

definition committed_kept ::
  "('l::linorder, 'v, 'u) raft_log_state \<times> ('l \<times> 'p) list
     \<Rightarrow> ('l, 'v, 'u) raft_log_state \<times> ('l \<times> 'p) list \<Rightarrow> bool" where
  "committed_kept a b \<longleftrightarrow>
     st_committed (fst a) \<le> st_committed (fst b) \<and> st_purged (fst a) \<le> st_purged (fst b)
     \<and> (\<forall>x \<in> set (snd a). Some (fst x) \<le> st_committed (fst a) \<longrightarrow>
          x \<in> set (snd b) \<or> Some (fst x) \<le> st_purged (fst b))"

lemma committed_kept_trans:
  "committed_kept a b \<Longrightarrow> committed_kept b c \<Longrightarrow> committed_kept a c"
  unfolding committed_kept_def by (meson order_trans)

lemma accepted_keeps_committed: "accepted T never_back a b \<Longrightarrow> committed_kept a b"
proof (induction rule: accepted.induct)
  case (accept st rec es)
  show ?case
  proof (cases rec)
    case (Checkpoint k)
    then show ?thesis using accept(2) by (simp add: committed_kept_def never_back_def)
  next
    case (Action a)
    show ?thesis
    proof (cases a)
      case (Commit l)
      then show ?thesis using accept(1) Action
        by (auto simp: committed_kept_def check_commit_def not_less split: if_splits option.splits)
    next
      case (TruncateAfter keep)
      then show ?thesis using accept(1) Action
        by (auto simp: committed_kept_def check_truncate_def state_truncate_after_def
            split: if_splits option.splits)
    next
      case (PurgeUpto l)
      then show ?thesis using Action
        by (auto simp: committed_kept_def state_purge_def Let_def not_less Some_le_iff
            dest: order_trans)
    qed (use Action in \<open>simp_all add: committed_kept_def\<close>)
  qed
qed

lemma run_keeps_committed: "(accepted T never_back)\<^sup>*\<^sup>* a b \<Longrightarrow> committed_kept a b"
proof (induction rule: rtranclp_induct)
  case base
  show ?case by (simp add: committed_kept_def)
qed (blast intro: committed_kept_trans accepted_keeps_committed)

end
