(* ===== verification/Wal_Reference.thy ===== *)
theory Wal_Reference imports Wal_Interface
begin

text \<open>
  A WAL in memory that satisfies the laws of \<open>chunked_wal\<close>, to show that they are
  consistent and to evaluate the witnesses on. It follows docs/architecture.md: a chunk
  starts with a checkpoint record, records are appended to the open chunk, the chunk is
  closed when it holds \<open>mw_max\<close> records, and the oldest closed chunks are drained. A chunk
  id is the number of records before the chunk, a segment the position in the chunk. It is
  not a model of the crate \<open>chunked_wal\<close>, and no definition of the program uses it.
\<close>

record ('r, 'k) mem_wal =
  mw_max :: nat
  mw_closed :: "(nat \<times> 'k) list"
  mw_files :: "(nat \<times> 'r list) list"
  mw_open_id :: nat
  mw_open :: "'r list"
  mw_fail :: bool
  mw_history :: "('r \<times> nat \<times> nat) list"

text \<open>
  \<open>mw_fail\<close> makes every call that reaches the file system fail. \<open>mw_history\<close> is a ghost: the
  records ever written, with their places.
\<close>

definition mem_error :: io_error where
  "mem_error = IoError OtherKind ''disk''"

definition mem_append :: "('r, 'k) mem_wal \<Rightarrow> 'r \<Rightarrow> (unit, ('r, 'k) mem_wal) call" where
  "mem_append w r = (Ok (), w\<lparr>mw_open := mw_open w @ [r],
                           mw_history := mw_history w @ [(r, mw_open_id w, length (mw_open w))]\<rparr>)"

definition mem_try_close ::
  "('k \<Rightarrow> 'r) \<Rightarrow> ('r, 'k) mem_wal \<Rightarrow> 'k \<Rightarrow> (bool, ('r, 'k) mem_wal) call" where
  "mem_try_close checkpoint w k =
     (if length (mw_open w) < mw_max w \<or> mw_open w = [] then (Ok False, w)
      else if mw_fail w then (Err mem_error, w)
      else (Ok True,
            w\<lparr>mw_closed := mw_closed w @ [(mw_open_id w, k)],
              mw_files := mw_files w @ [(mw_open_id w, mw_open w)],
              mw_open_id := mw_open_id w + length (mw_open w),
              mw_open := [checkpoint k],
              mw_history :=
                mw_history w @ [(checkpoint k, mw_open_id w + length (mw_open w), 0)]\<rparr>))"

definition mem_drain ::
  "('r, 'k) mem_wal \<Rightarrow> ('k \<Rightarrow> bool) \<Rightarrow> nat list \<times> ('r, 'k) mem_wal" where
  "mem_drain w P =
     (map fst (takeWhile (\<lambda>ck. P (snd ck)) (mw_closed w)),
      w\<lparr>mw_closed := dropWhile (\<lambda>ck. P (snd ck)) (mw_closed w)\<rparr>)"

definition mem_send_pending ::
  "('r, 'k) mem_wal \<Rightarrow> bool \<Rightarrow> 'cb option \<Rightarrow> (unit, ('r, 'k) mem_wal) call" where
  "mem_send_pending w sync cb = (if mw_fail w then (Err mem_error, w) else (Ok (), w))"

definition mem_send_remove ::
  "('r, 'k) mem_wal \<Rightarrow> nat list \<Rightarrow> (unit, ('r, 'k) mem_wal) call" where
  "mem_send_remove w ids =
     (Ok (), w\<lparr>mw_files := filter (\<lambda>f. fst f \<notin> set ids) (mw_files w)\<rparr>)"

definition nth_record :: "'r list \<Rightarrow> nat \<Rightarrow> 'r option" where
  "nth_record rs i = (if i < length rs then Some (rs ! i) else None)"

definition mem_load :: "('r, 'k) mem_wal \<Rightarrow> nat \<Rightarrow> nat \<Rightarrow> ('r, io_error) outcome" where
  "mem_load w c g =
     (case Option.bind (map_of (mw_files w) c) (\<lambda>rs. nth_record rs g) of
        Some r \<Rightarrow> Ok r
      | None \<Rightarrow> Err mem_error)"

definition mem_api ::
  "('k \<Rightarrow> 'r) \<Rightarrow> (('r, 'k) mem_wal, nat, nat, 'cb, 'r, 'k) wal_api" where
  "mem_api checkpoint =
     \<lparr>wal_append = mem_append, wal_open_chunk_id = mw_open_id,
      wal_last_segment = (\<lambda>w. length (mw_open w) - 1), wal_try_close = mem_try_close checkpoint,
      wal_drain_closed = mem_drain, wal_send_pending = mem_send_pending,
      wal_send_remove = mem_send_remove, wal_load_record = mem_load\<rparr>"

definition mem_rec_at :: "('r, 'k) mem_wal \<Rightarrow> nat \<Rightarrow> nat \<Rightarrow> 'r option" where
  "mem_rec_at w c g =
     (if c = mw_open_id w then nth_record (mw_open w) g
      else Option.bind (map_of (mw_files w) c) (\<lambda>rs. nth_record rs g))"

definition mem_readable :: "('r, 'k) mem_wal \<Rightarrow> nat \<Rightarrow> bool" where
  "mem_readable w c \<longleftrightarrow> c \<in> fst ` set (mw_files w)"

definition mem_ok :: "('r, 'k) mem_wal \<Rightarrow> bool" where
  "mem_ok w \<longleftrightarrow>
     (\<forall>ck \<in> set (mw_closed w). fst ck < mw_open_id w)
     \<and> (\<forall>f \<in> set (mw_files w). fst f < mw_open_id w)"

definition mem_new :: "nat \<Rightarrow> 'r list \<Rightarrow> ('r, 'k) mem_wal" where
  "mem_new n rs =
     \<lparr>mw_max = n, mw_closed = [], mw_files = [], mw_open_id = 0, mw_open = rs, mw_fail = False,
      mw_history = map (\<lambda>i. (rs ! i, 0, i)) [0..<length rs]\<rparr>"

lemma mem_ok_new [simp]: "mem_ok (mem_new n rs)"
  by (simp add: mem_ok_def mem_new_def)

section \<open>It satisfies the laws\<close>

lemma nth_record_append: "nth_record rs g = Some r \<Longrightarrow> nth_record (rs @ ss) g = Some r"
  by (simp add: nth_record_def nth_append split: if_splits)

lemma mem_api_simps [simp]:
  "wal_append (mem_api cp) = mem_append"
  "wal_open_chunk_id (mem_api cp) = mw_open_id"
  "wal_last_segment (mem_api cp) = (\<lambda>w. length (mw_open w) - 1)"
  "wal_try_close (mem_api cp) = mem_try_close cp"
  "wal_drain_closed (mem_api cp) = mem_drain"
  "wal_send_pending (mem_api cp) = mem_send_pending"
  "wal_send_remove (mem_api cp) = mem_send_remove"
  "wal_load_record (mem_api cp) = mem_load"
  by (simp_all add: mem_api_def)

lemma map_of_filter_keys: "c \<notin> A \<Longrightarrow> map_of (filter (\<lambda>f. fst f \<notin> A) fs) c = map_of fs c"
  by (induction fs) auto

lemma mem_unopened: "mem_ok w \<Longrightarrow> mem_readable w c \<Longrightarrow> c \<noteq> mw_open_id w"
  by (auto simp: mem_ok_def mem_readable_def)

lemma map_of_snoc:
  "map_of fs k = None \<Longrightarrow> map_of (fs @ [(k, v)]) c = (if c = k then Some v else map_of fs c)"
  by (simp add: map_add_def split: option.split)

lemma mem_close_extends:
  assumes ok: "mem_ok w" and ne: "mw_open w \<noteq> []"
  shows "wal_extends mem_rec_at mem_readable {} w
     (w\<lparr>mw_closed := cs, mw_files := mw_files w @ [(mw_open_id w, mw_open w)],
        mw_open_id := mw_open_id w + length (mw_open w), mw_open := rs, mw_history := h\<rparr>)"
proof -
  let ?later = "mw_open_id w + length (mw_open w)"
  have free: "map_of (mw_files w) c = None" if "mw_open_id w \<le> c" for c
    using ok that by (fastforce simp: mem_ok_def map_of_eq_None_iff)
  have snoc: "map_of (mw_files w @ [(mw_open_id w, mw_open w)]) c =
      (if c = mw_open_id w then Some (mw_open w) else map_of (mw_files w) c)" for c
    using free by (intro map_of_snoc) simp
  have other: "c \<noteq> ?later" if "map_of (mw_files w) c = Some f" for c f
    using free [of ?later] that by auto
  have pos: "?later \<noteq> mw_open_id w" using ne by simp
  let ?w = "w\<lparr>mw_closed := cs, mw_files := mw_files w @ [(mw_open_id w, mw_open w)],
        mw_open_id := ?later, mw_open := rs, mw_history := h\<rparr>"
  have "mem_rec_at ?w c g = Some r" if r: "mem_rec_at w c g = Some r" for c g r
  proof (cases "c = mw_open_id w")
    case True
    then show ?thesis using r pos by (simp add: mem_rec_at_def snoc del: map_of_append)
  next
    case False
    then obtain f where f: "map_of (mw_files w) c = Some f" "nth_record f g = Some r"
      using r by (auto simp: mem_rec_at_def bind_eq_Some_conv)
    then show ?thesis using False other [OF f(1)] by (simp add: mem_rec_at_def snoc del: map_of_append)
  qed
  moreover have "mem_readable ?w c" if "mem_readable w c" for c
    using that by (simp add: mem_readable_def)
  ultimately show ?thesis by (simp add: wal_extends_def)
qed

lemma mem_append_extends:
  "wal_extends mem_rec_at mem_readable {} w (w\<lparr>mw_open := mw_open w @ [r], mw_history := h\<rparr>)"
  by (simp add: wal_extends_def mem_rec_at_def mem_readable_def nth_record_append)

lemma mem_closed_extends:
  "wal_extends mem_rec_at mem_readable A w (w\<lparr>mw_closed := cs\<rparr>)"
  by (simp add: wal_extends_def mem_rec_at_def mem_readable_def)

lemma mem_extends_refl: "wal_extends mem_rec_at mem_readable A w w"
  by (simp add: wal_extends_def)

lemma mem_remove_extends:
  "wal_extends mem_rec_at mem_readable A w
     (w\<lparr>mw_files := filter (\<lambda>f. fst f \<notin> A) (mw_files w)\<rparr>)"
  by (auto simp: wal_extends_def mem_rec_at_def mem_readable_def map_of_filter_keys
      simp del: map_of_filter_in)

interpretation mem: chunked_wal "mem_api cp" mem_rec_at mem_readable mw_closed mem_ok
  for cp :: "'k \<Rightarrow> 'r"
proof (unfold_locales, goal_cases)
  case 1
  then show ?case by (auto simp: mem_ok_def)
next
  case (2 w r res w')
  then have "w' = w\<lparr>mw_open := mw_open w @ [r],
      mw_history := mw_history w @ [(r, mw_open_id w, length (mw_open w))]\<rparr>"
    by (simp add: mem_append_def)
  then show ?case using 2(1) mem_append_extends by (simp add: mem_ok_def)
next
  case (3 w r w')
  then have "w' = w\<lparr>mw_open := mw_open w @ [r],
      mw_history := mw_history w @ [(r, mw_open_id w, length (mw_open w))]\<rparr>"
    by (simp add: mem_append_def)
  then show ?case by (simp add: mem_rec_at_def nth_record_def)
next
  case (4 w k res w')
  let ?closed = "mw_closed w @ [(mw_open_id w, k)]"
  let ?new = "w\<lparr>mw_closed := ?closed, mw_files := mw_files w @ [(mw_open_id w, mw_open w)],
        mw_open_id := mw_open_id w + length (mw_open w), mw_open := [cp k],
        mw_history := mw_history w @ [(cp k, mw_open_id w + length (mw_open w), 0)]\<rparr>"
  from 4(2) consider "w' = w" | "w' = ?new" "mw_open w \<noteq> []"
    by (auto simp: mem_try_close_def split: if_splits)
  then show ?case
  proof cases
    case 1
    then show ?thesis using 4(1) mem_extends_refl by simp
  next
    case 2
    have "mem_ok ?new" using 4(1) 2(2) by (fastforce simp: mem_ok_def)
    then show ?thesis using 2 mem_close_extends [OF 4(1) 2(2), where cs = ?closed and rs = "[cp k]"]
      by simp
  qed
next
  case (5 w P ids w')
  let ?rest = "dropWhile (\<lambda>ck. P (snd ck)) (mw_closed w)"
  have w': "w' = w\<lparr>mw_closed := ?rest\<rparr>" and "ids = map fst (takeWhile (\<lambda>ck. P (snd ck)) (mw_closed w))"
    using 5(2) by (simp_all add: mem_drain_def)
  moreover have "mem_ok w'" using 5(1) w' by (auto simp: mem_ok_def dest: set_dropWhileD)
  ultimately show ?case using mem_closed_extends by simp
next
  case (6 w sync cb res w')
  then have "w' = w" by (simp add: mem_send_pending_def split: if_splits)
  then show ?case using 6(1) mem_extends_refl by simp
next
  case (7 w ids res w')
  then have "w' = w\<lparr>mw_files := filter (\<lambda>f. fst f \<notin> set ids) (mw_files w)\<rparr>"
    by (simp add: mem_send_remove_def)
  then show ?case using 7(1) mem_remove_extends by (simp add: mem_ok_def)
next
  case (8 w c g r)
  then have "c \<noteq> mw_open_id w" using mem_unopened by blast
  then show ?case using 8(2) by (simp add: mem_load_def mem_rec_at_def)
qed

end
