(* ===== verification/Sample_Runs.thy ===== *)
theory Sample_Runs imports Raft_Ops Wal_Reference
begin

text \<open>
  Concrete stores, on which the properties are instantiated: \<open>TestTypes\<close> of
  \<open>src/testing.rs\<close> over the WAL of \<open>Wal_Reference\<close>, opened on an empty directory, and the
  rewriting rules that run the operations on them.
\<close>

type_synonym test_state = "(test_id, u64 \<times> u64, string) raft_log_state"
type_synonym test_record = "(test_id, string, u64 \<times> u64, string) raft_record"
type_synonym test_wal = "(test_record, test_state) mem_wal"
type_synonym test_store =
  "(test_id, string, u64 \<times> u64, string, test_wal, nat, nat, string) raft_log"
type_synonym test_api = "(test_wal, nat, nat, unit, test_record, test_state) wal_api"

definition test_api :: test_api where
  "test_api = mem_api Checkpoint"

definition test_config :: "usize option \<Rightarrow> usize option \<Rightarrow> string config" where
  "test_config items cap =
     \<lparr>cfg_wal = ''dir'', cfg_log_cache_max_items = items, cfg_log_cache_capacity = cap\<rparr>"

text \<open>A store on an empty directory: the first chunk starts with the default checkpoint.\<close>

definition test_store :: "nat \<Rightarrow> usize option \<Rightarrow> usize option \<Rightarrow> test_store" where
  "test_store chunk_records items cap =
     \<lparr>rl_config = test_config items cap,
      rl_wal = mem_new chunk_records [Checkpoint default_state],
      rl_sm = sm_new (test_config items cap), rl_removed = [],
      rl_access = \<lparr>cache_hit = 0, cache_miss = 0\<rparr>\<rparr>"

lemma test_store_opened:
  "rl_open (\<lambda>_ sm. (Ok (mem_new n [Checkpoint default_state]), sm)) test_api (test_config items cap)
     = Ok (test_store n items cap)"
  by (simp add: rl_open_def test_store_def buffer_removable_chunks_def log_state_def sm_new_def
      default_state_def test_config_def)

lemma fresh_inv:
  assumes "wal_ok w"
  shows "rl_inv T W rec_at readable closed wal_ok
     \<lparr>rl_config = cfg, rl_wal = w, rl_sm = sm_new cfg', rl_removed = [], rl_access = a\<rparr>"
proof -
  have "cache_wf (sm_cache (sm_new cfg'))" 
    by (simp add: sm_new_def cache_new_def cache_wf_def)
  then show ?thesis using assms sm_new_inv [of T cfg'] by (simp add: rl_inv_def sm_new_def)
qed

abbreviation test_inv :: "test_store \<Rightarrow> bool" where
  "test_inv \<equiv> rl_inv test_types test_api mem_rec_at mem_readable mw_closed mem_ok"

lemma test_store_inv [simp]: "test_inv (test_store n items cap)"
  unfolding test_store_def by (rule fresh_inv) simp

lemma test_store_holds [simp]: "log_holds mem_rec_at (test_store n items cap) []"
  by (simp add: log_holds_def test_store_def sm_new_def)

interpretation tw: raft_wal test_api mem_rec_at mem_readable mw_closed mem_ok
  unfolding raft_wal_def test_api_def by (rule mem.chunked_wal_axioms)

section \<open>Running the operations\<close>

text \<open>
  Rewriting rules that run the operations on such stores: the definitions of the store, of
  the parts it calls and of the reference WAL, with comparisons of words and pairs.
\<close>

named_theorems run_simps "running the operations on a concrete store"

text \<open>Forms that evaluate a result once before it is used twice.\<close>

lemma on_wal_run [run_simps]: "on_wal (r, w) s = (r, s\<lparr>rl_wal := w\<rparr>)"
  by (simp add: on_wal_def)

lemma on_sm_run [run_simps]:
  "on_sm T (r, sm) s = (map_err (io_of_state_error T) r, s\<lparr>rl_sm := sm\<rparr>)"
  by (simp add: on_sm_def)

lemma sm_apply_run [run_simps]:
  "sm_apply T sm rec c g =
     (case state_apply T (sm_state sm) rec of
        (r, st) \<Rightarrow> (r, (sm_touch T sm rec c g)\<lparr>sm_state := st\<rparr>))"
  by (simp add: sm_apply_def Let_def split: prod.split)

lemma buffer_run [run_simps]:
  "buffer_removable_chunks W s =
     (case st_purged (sm_state (rl_sm s)) of
        None \<Rightarrow> s
      | Some p \<Rightarrow>
          (case wal_drain_closed W (rl_wal s) (\<lambda>k. st_last k \<le> Some p) of
             (ids, w) \<Rightarrow> s\<lparr>rl_wal := w, rl_removed := rl_removed s @ ids\<rparr>))"
  by (simp add: buffer_removable_chunks_def log_state_def split: option.split prod.split)

lemma append_and_apply_run [run_simps]:
  "append_and_apply T W rec s =
     sbind (checked T (sm_check T (rl_sm s) rec) s) (\<lambda>_ s.
     sbind (on_wal (wal_append W (rl_wal s) rec) s) (\<lambda>_ s.
     sbind (on_sm T (sm_apply T (rl_sm s) rec (wal_open_chunk_id W (rl_wal s))
                       (wal_last_segment W (rl_wal s))) s) (\<lambda>_ s.
     sbind (on_wal (wal_try_close W (rl_wal s) (sm_checkpoint (rl_sm s))) s) (\<lambda>closed s.
     sbind (Ok (), if closed then buffer_removable_chunks W s else s) (\<lambda>_ s.
       (Ok (wal_last_segment W (rl_wal s)), s))))))"
  by (simp add: append_and_apply_def Let_def)

lemmas store_runs [run_simps] =
  checked_def log_state_def rl_truncate_def truncate_target_def get_log_id_def rl_purge_def
  rl_commit_def rl_flush_def save_vote_def save_user_data_def update_state_def rl_read_def
  read_entry_def count_hit_def count_miss_def drain_cache_evictable_def worker_callback_def
  on_chunk_persisted_def

lemmas machine_runs [run_simps] =
  sm_new_def sm_check_def sm_checkpoint_def check_checkpoint_def state_apply_def
  check_vote_def check_append_def check_commit_def check_truncate_def state_truncate_after_def
  state_purge_def default_state_def log_cache_max_items_def log_cache_capacity_def

lemmas cache_runs [run_simps] =
  cache_new_def cache_insert_def cache_get_def set_last_evictable_def need_evict_def
  evict_first_def try_evict.simps drain_evictable.simps cache_truncate_after.simps
  cache_purge_upto.simps cache_clear_def

lemmas map_runs [run_simps] =
  bt_get_def bt_first_def bt_last_def bt_split_off_def bt_below_def bt_from_def
  bt_pop_first_def bt_pop_last_def bt_range_def

lemmas wal_runs [run_simps] =
  test_api_def mem_new_def mem_append_def mem_try_close_def mem_drain_def mem_send_pending_def
  mem_send_remove_def mem_load_def nth_record_def mem_rec_at_def mem_readable_def

lemmas word_runs [run_simps] =
  test_store_def test_config_def word_le_nat_alt word_less_nat_alt

text \<open>Two entries in a chunk of three records, which closes when the second is written.\<close>

definition two_entries :: test_store where
  "two_entries =
     snd (rl_append test_types test_api [((1, 0), ''hi''), ((1, 1), ''hello'')]
            (test_store 3 (Some 1) (Some 100)))"

abbreviation test_steps :: "test_store \<Rightarrow> test_store \<Rightarrow> bool" where
  "test_steps \<equiv> (rl_step test_types (\<lambda>_ _. True) test_api mem_rec_at mem_readable mw_closed mem_ok)\<^sup>*\<^sup>*"

definition two_entries_state :: test_state where
  "two_entries_state = default_state\<lparr>st_last := Some (1, 1)\<rparr>"

lemma two_entries_run [run_simps]:
  "two_entries =
     \<lparr>rl_config = test_config (Some 1) (Some 100),
      rl_wal = \<lparr>mw_max = 3, mw_closed = [(0, two_entries_state)],
                mw_files = [(0, [Checkpoint default_state, Action (Append (1, 0) ''hi''),
                                 Action (Append (1, 1) ''hello'')])],
                mw_open_id = 3, mw_open = [Checkpoint two_entries_state], mw_fail = False,
                mw_history = [(Checkpoint default_state, 0, 0), (Action (Append (1, 0) ''hi''), 0, 1),
                              (Action (Append (1, 1) ''hello''), 0, 2),
                              (Checkpoint two_entries_state, 3, 0)]\<rparr>,
      rl_sm = \<lparr>sm_log = [(0, \<lparr>ld_log_id = (1, 0), ld_chunk_id = 0, ld_segment = 1\<rparr>),
                         (1, \<lparr>ld_log_id = (1, 1), ld_chunk_id = 0, ld_segment = 2\<rparr>)],
               sm_cache = \<lparr>pc_max_items = 1, pc_capacity = 100, pc_size = 7,
                           pc_cache = [((1, 0), ''hi''), ((1, 1), ''hello'')],
                           pc_last_evictable = None\<rparr>,
               sm_state = two_entries_state\<rparr>,
      rl_removed = [], rl_access = \<lparr>cache_hit = 0, cache_miss = 0\<rparr>\<rparr>"
  by (simp add: two_entries_def two_entries_state_def run_simps cong: sbind_first)

lemma two_entries_reached: "test_steps (test_store 3 (Some 1) (Some 100)) two_entries"
proof -
  let ?s = "test_store 3 (Some 1) (Some 100)"
  have "rl_append test_types test_api [((1, 0), ''hi''), ((1, 1), ''hello'')] ?s
      = (fst (rl_append test_types test_api [((1, 0), ''hi''), ((1, 1), ''hello'')] ?s), two_entries)"
    by (simp add: two_entries_def)
  from step_append [OF this] show ?thesis
    by (intro r_into_rtranclp)
      (simp add: appendable_def evictable_def test_store_def sm_new_def cache_new_def)
qed

lemma two_entries_holds: "log_holds mem_rec_at two_entries [((1, 0), ''hi''), ((1, 1), ''hello'')]"
  by (simp add: log_holds_def placed_def run_simps)

lemma two_entries_inv: "test_inv two_entries"
  using tw.steps_follow [OF two_entries_reached test_store_inv test_store_holds]
  by (simp add: follows_def admits_user_data_def)

end
