(* ===== verification/Store_Properties.thy ===== *)
theory Store_Properties imports Sample_Runs
begin

text \<open>
  The properties of the store, over every WAL that satisfies the laws of \<open>chunked_wal\<close>, and
  their instances at stores on the reference WAL.
\<close>

section \<open>The store and the abstract log\<close>




definition committed_store :: test_store where
  "committed_store = snd (rl_commit test_types test_api (1, 0) two_entries)"


text \<open>C8: Functional. Reading a range returns, in order, exactly the entries of the abstract
  log whose index lies in the range, each with the payload it was appended with, whether the
  payload comes from the cache or from the WAL; nothing fails, and only the hit and miss
  counters change.\<close>

theorem read_returns_log:
  assumes "raft_wal W rec_at readable closed wal_ok"
    and "rl_inv T W rec_at readable closed wal_ok s" and "log_holds rec_at s es" and "lo \<le> hi"
  shows "\<exists>a. rl_read W lo hi s =
     (Ok (map Ok (filter (\<lambda>x. lo \<le> log_index T (fst x) \<and> log_index T (fst x) < hi) es)),
      s\<lparr>rl_access := a\<rparr>)"
  using raft_wal.read_ok [OF assms] by blast

theorem read_returns_log_witness:
  "\<exists>a. rl_read test_api 1 9 two_entries = (Ok [Ok ((1, 1), ''hello'')], two_entries\<lparr>rl_access := a\<rparr>)"
  using read_returns_log [OF tw.raft_wal_axioms two_entries_inv two_entries_holds, of 1 9]
  by (simp add: word_le_nat_alt word_less_nat_alt)

section \<open>Writes that are rejected\<close>

text \<open>C17: Error behaviour. A call that the checks reject returns the reason as an
  \<open>InvalidInput\<close> error and leaves the whole store unchanged: WAL buffer, log map, cache and
  state. For a batch this is the first entry of the batch.\<close>

theorem rejected_changes_nothing:
  fixes s :: "('l::linorder, 'p, 'v::order, 'u, 'w, 'c, 'g, 'wc) raft_log"
  shows "(check_vote (log_state s) v = Err e \<longrightarrow>
        save_vote T W v s = (Err (io_of_state_error T e), s))
     \<and> (check_append T (log_state s) l = Err e \<longrightarrow>
        rl_append T W ((l, p) # new) s = (Err (io_of_state_error T e), s))
     \<and> (check_commit (log_state s) l = Err e \<longrightarrow>
        rl_commit T W l s = (Err (io_of_state_error T e), s))
     \<and> (truncate_target T i s = Err e
        \<or> (\<exists>keep. truncate_target T i s = Ok keep \<and> check_truncate (log_state s) keep = Err e) \<longrightarrow>
        rl_truncate T W i s = (Err (io_of_state_error T e), s))
     \<and> (check_checkpoint T (rl_sm s) st = Err e \<longrightarrow>
        update_state T W st s = (Err (io_of_state_error T e), s))"
  by (auto simp: save_vote_def rl_commit_def rl_truncate_def update_state_def checked_def
      append_and_apply_def sm_check_def log_state_def)

theorem rejected_changes_nothing_witness:
  "rl_commit test_types test_api (1, 5) two_entries =
     (Err (io_of_state_error test_types (CommitBeyondLast (Some (1, 1)) (1, 5))), two_entries)"
proof -
  have "check_commit (log_state two_entries) (1, 5) =
      (Err (CommitBeyondLast (Some (1, 1)) (1, 5)) :: (unit, (test_id, u64 \<times> u64) state_error) outcome)"
    by (simp add: run_simps two_entries_state_def)
  then show ?thesis
    using rejected_changes_nothing [where s = two_entries and l = "(1, 5)" and T = test_types
        and W = test_api] by blast
qed

text \<open>The kept part of the log, by index.\<close>

lemma truncate_target_index:
  assumes inv: "sm_inv T (rl_sm s)" and target: "truncate_target T i s = Ok keep"
  shows "next_log_index T keep = i"
proof (cases "i = next_log_index T (st_purged (log_state s))")
  case True
  with target show ?thesis by (simp add: truncate_target_def)
next
  case False
  then obtain l where l: "get_log_id s (i - 1) = Ok l" "keep = Some l"
    using target by (auto simp: truncate_target_def Let_def and_then_eq_Ok split: if_splits)
  then obtain d where d: "bt_get (sm_log (rl_sm s)) (i - 1) = Some d" "l = ld_log_id d"
    by (auto simp: get_log_id_def split: option.splits)
  have wf: "log_wf T (sm_log (rl_sm s))" using inv by (simp add: sm_inv_def)
  then have "(i - 1, d) \<in> set (sm_log (rl_sm s))"
    using d(1) by (simp add: bt_get_Some_iff log_wf_bt_wf)
  from log_wf_key [OF wf this] have "log_index T l = i - 1" unfolding d(2) by simp
  with l(2) show ?thesis by simp
qed

lemma filter_eq_iff: "filter P xs = filter Q xs \<longleftrightarrow> (\<forall>x \<in> set xs. P x = Q x)"
  by (metis (mono_tags, lifting) filter_cong mem_Collect_eq set_filter)

lemma holds_filter:
  assumes holds: "log_holds rec_at s es"
    and same: "\<forall>e \<in> set (sm_log (rl_sm s)). P (entry_id e) = Q (entry_id e)"
  shows "filter (\<lambda>x. P (fst x)) es = filter (\<lambda>x. Q (fst x)) es"
proof -
  have "P (fst x) = Q (fst x)" if x: "x \<in> set es" for x
  proof -
    from x obtain n where n: "n < length es" "es ! n = x" by (auto simp: in_set_conv_nth)
    then have "entry_id (sm_log (rl_sm s) ! n) = fst x" "n < length (sm_log (rl_sm s))"
      using holds list_all2_nthD2 [of _ "sm_log (rl_sm s)" es n]
      by (auto simp: log_holds_def list_all2_lengthD)
    then show ?thesis using same by (metis nth_mem)
  qed
  then show ?thesis by (intro filter_cong) auto
qed

section \<open>Each write, when it succeeds\<close>







section \<open>Chunk files\<close>



lemma flush_sent:
  assumes "rl_flush W True cb s = (Ok (), s')"
  shows "\<exists>w. wal_send_pending W (rl_wal s) True cb = (Ok (), w) \<and> rl_removed s' = []
     \<and> (if rl_removed s = [] then rl_wal s' = w
        else wal_send_remove W w (rl_removed s) = (Ok (), rl_wal s'))"
proof -
  obtain r w where send: "wal_send_pending W (rl_wal s) True cb = (r, w)" by fastforce
  obtain q w2 where "wal_send_remove W w (rl_removed s) = (q, w2)" by fastforce
  with assms send show ?thesis
    by (cases r) (auto simp: rl_flush_def on_wal_def Let_def split: if_splits)
qed



end
