(* ===== verification/State_Properties.thy ===== *)
theory State_Properties imports Raft_State
begin

text \<open>
  The properties of \<open>RaftLogState\<close>: which records its check accepts and with which error it
  rejects the others, what an accepted record changes, and what never goes backwards.
\<close>

text \<open>C18: Functional. The check never panics, and it accepts exactly: a vote that is not below
  the current one; an entry above \<open>last\<close> at the next index (any index on a log that was
  never written); a commit position from the current one up to \<open>last\<close>; a truncation that
  keeps every committed entry; every purge; every checkpoint.\<close>

theorem check_accepts_exactly:
  fixes s :: "('l::linorder, 'v::order, 'u) raft_log_state"
  shows "state_check T s rec \<noteq> Panic \<and>
    (state_check T s rec = Ok () \<longleftrightarrow>
     (case rec of
        Action (SaveVote v) \<Rightarrow> st_vote s \<le> Some v
      | Action (Append l p) \<Rightarrow>
          st_last s < Some l \<and> (st_last s = None \<or> log_index T l = next_log_index T (st_last s))
      | Action (Commit l) \<Rightarrow> st_committed s \<le> Some l \<and> Some l \<le> st_last s
      | Action (TruncateAfter keep) \<Rightarrow> st_committed s \<le> keep
      | Action (PurgeUpto l) \<Rightarrow> True
      | Checkpoint st \<Rightarrow> True))"
proof (cases rec)
  case (Action a)
  then show ?thesis
    using state_check_not_Panic [of T s rec]
    by (cases a; cases "st_last s") (auto simp: check_Ok_iff)
qed simp

text \<open>C19: Error behaviour. Each rejection names its reason, and reversal is reported before a
  gap: the error of each record kind and the state that leads to it.\<close>

theorem check_rejects_with:
  fixes s :: "('l::linorder, 'v::order, 'u) raft_log_state"
  shows "(check_vote s v = Err e \<longleftrightarrow>
            (\<exists>c. st_vote s = Some c \<and> \<not> c \<le> v \<and> e = VoteReversal c v))
     \<and> (check_append T s l = Err e \<longleftrightarrow>
            (\<exists>c. st_last s = Some c \<and>
               (l \<le> c \<and> e = LogIdReversal c l ''append''
                \<or> c < l \<and> log_index T l \<noteq> log_index T c + 1 \<and> e = LogIdNonConsecutive (Some c) l)))
     \<and> (check_commit s l = Err e \<longleftrightarrow>
            (\<exists>c. st_committed s = Some c \<and> l < c \<and> e = LogIdReversal c l ''commit'')
            \<or> st_committed s \<le> Some l \<and> st_last s < Some l
              \<and> e = CommitBeyondLast (st_last s) l)
     \<and> (check_truncate s keep = Err e \<longleftrightarrow>
            (\<exists>c. st_committed s = Some c \<and> keep < Some c \<and> e = TruncateCommitted c keep))"
  by (cases "st_last s"; cases "st_committed s"; cases "st_vote s")
    (auto simp: check_vote_def check_append_def check_commit_def check_truncate_def not_le not_less)

text \<open>C20: Functional. Applying a record either rejects it and leaves the state as it is, or makes
  exactly its own change: truncation lowers \<open>last\<close> to at most the kept position, purging
  raises \<open>purged\<close> and \<open>last\<close> to at least the purged one, and no action touches user data.\<close>

theorem apply_changes_exactly:
  fixes s :: "('l::linorder, 'v::order, 'u) raft_log_state"
  shows "state_apply T s rec =
    (if is_ok (state_check T s rec) then
       (Ok (),
        case rec of
          Action (SaveVote v) \<Rightarrow> s\<lparr>st_vote := Some v\<rparr>
        | Action (Append l p) \<Rightarrow> s\<lparr>st_last := Some l\<rparr>
        | Action (Commit l) \<Rightarrow> s\<lparr>st_committed := Some l\<rparr>
        | Action (TruncateAfter keep) \<Rightarrow> s\<lparr>st_last := min (st_last s) keep\<rparr>
        | Action (PurgeUpto l) \<Rightarrow>
            s\<lparr>st_purged := max (st_purged s) (Some l), st_last := max (st_last s) (Some l)\<rparr>
        | Checkpoint st \<Rightarrow> st)
     else (state_check T s rec, s))"
proof -
  have "state_effect s rec =
      (case rec of
          Action (SaveVote v) \<Rightarrow> s\<lparr>st_vote := Some v\<rparr>
        | Action (Append l p) \<Rightarrow> s\<lparr>st_last := Some l\<rparr>
        | Action (Commit l) \<Rightarrow> s\<lparr>st_committed := Some l\<rparr>
        | Action (TruncateAfter keep) \<Rightarrow> s\<lparr>st_last := min (st_last s) keep\<rparr>
        | Action (PurgeUpto l) \<Rightarrow>
            s\<lparr>st_purged := max (st_purged s) (Some l), st_last := max (st_last s) (Some l)\<rparr>
        | Checkpoint st \<Rightarrow> st)"
    by (cases "(s, rec)" rule: state_effect.cases) simp_all
  then show ?thesis
    by (cases rule: state_apply_cases [of T s rec]) simp_all
qed

text \<open>C21: Invariant. Over any sequence of actions, accepted or rejected, neither the vote nor the
  commit position nor the purge position goes back, and the commit position stays within
  the log, provided it was there before.\<close>

theorem actions_never_go_back:
  fixes s :: "('l::linorder, 'v::order, 'u) raft_log_state"
  assumes "committed_in_log s" and "list_all is_action recs"
  shows "committed_in_log (foldl (state_step T) s recs)
     \<and> st_vote s \<le> st_vote (foldl (state_step T) s recs)
     \<and> st_committed s \<le> st_committed (foldl (state_step T) s recs)
     \<and> st_purged s \<le> st_purged (foldl (state_step T) s recs)"
proof -
  have "along (state_step T) (\<lambda>_. is_action) s recs"
    using assms(2) by (intro along_inputs) (simp add: list_all_iff)
  with st.run_inv [OF assms(1) this] st.run_grows [OF assms(1) this] show ?thesis
    by (simp add: state_grows_def)
qed

theorem actions_never_go_back_witness:
  "st_committed (foldl (state_step test_types)
      (default_state :: (test_id, u64 \<times> u64, string) raft_log_state)
      [Action (Append (1, 0) ''a''), Action (Commit (1, 0)), Action (TruncateAfter None)])
     = Some (1, 0)
   \<and> committed_in_log (foldl (state_step test_types)
      (default_state :: (test_id, u64 \<times> u64, string) raft_log_state)
      [Action (Append (1, 0) ''a''), Action (Commit (1, 0)), Action (TruncateAfter None)])"
proof
  let ?recs = "[Action (Append (1, 0) ''a''), Action (Commit (1, 0)), Action (TruncateAfter None)]
      :: (test_id, string, u64 \<times> u64, string) raft_record list"
  show "st_committed (foldl (state_step test_types) default_state ?recs) = Some (1, 0)"
    by (simp add: state_step_def state_apply_def default_state_def check_append_def
        check_commit_def check_truncate_def)
  show "committed_in_log (foldl (state_step test_types) default_state ?recs)"
    using actions_never_go_back [of default_state ?recs test_types]
    by (simp add: committed_in_log_def default_state_def is_action_def)
qed

end
