(* ===== verification/Cache_Properties.thy ===== *)
theory Cache_Properties imports Payload_Cache
begin

text \<open>
  The properties of the payload cache: what each operation keeps and drops, how far eviction
  goes, and the byte counter.
\<close>

text \<open>C23: Safety. A payload above the eviction boundary, whose record may not be on disk yet,
  is never dropped by an insert, by draining, by purging, or by moving the boundary: after
  any such operation a lookup of it returns what it returned before, or the payload just
  inserted under its key. Only truncation below it and clearing remove it.\<close>

theorem unflushed_payload_stays:
  assumes "cache_wf c" and "\<not> evictable c k"
    and "case op of OpTruncate b \<Rightarrow> k \<le> b | OpClear \<Rightarrow> False | _ \<Rightarrow> True"
  shows "cache_get (cache_step T c op) k =
    (case op of OpInsert key p \<Rightarrow> if k = key then Some p else cache_get c k | _ \<Rightarrow> cache_get c k)"
  using assms
  by (cases op) (simp_all add: get_insert get_drain get_purge get_truncate get_set_last_evictable)

theorem unflushed_payload_stays_witness:
  "cache_get (cache_step test_types
      (cache_step test_types (cache_new 0 0) (OpInsert (1, 1) ''a'')) (OpInsert (1, 2) ''b'')) (1, 1)
    = Some ''a''"
proof -
  let ?c = "cache_insert test_types (1, 1) ''a'' (cache_new 0 0)"
  have "cache_wf (cache_new 0 0)" by (simp add: cache_wf_def cache_new_def)
  then have "cache_wf ?c" by (rule cache_wf_insert)
  moreover have "\<not> evictable ?c (1, 1)" by (simp add: evictable_def cache_new_def)
  moreover have "cache_get ?c (1, 1) = Some ''a''"
    by (simp add: cache_insert_def cache_new_def try_evict.simps need_evict_def bt_first_def
        cache_get_def bt_get_def)
  ultimately show ?thesis
    using unflushed_payload_stays [of ?c "(1, 1)" "OpInsert (1, 2) ''b''" test_types] by simp
qed

text \<open>C24: Functional. An insert evicts from the smallest log id upwards, only payloads at or below
  the boundary, only while a limit is exceeded, and stops no earlier than when both limits
  hold or the smallest payload left is above the boundary.\<close>

theorem insert_evicts_minimally:
  fixes c :: "('l::linorder, 'p) payload_cache"
  shows "\<exists>n \<le> length (bt_insert k p (pc_cache c)).
     pc_cache (cache_insert T k p c) = drop n (bt_insert k p (pc_cache c))
     \<and> (\<forall>e \<in> set (take n (bt_insert k p (pc_cache c))). evictable c (fst e))
     \<and> (\<forall>m < n. need_evict (shed T m (cache_put T k p c)))
     \<and> (\<not> need_evict (cache_insert T k p c)
        \<or> drop n (bt_insert k p (pc_cache c)) = []
        \<or> \<not> evictable c (fst (bt_insert k p (pc_cache c) ! n)))"
proof -
  have cache: "pc_cache (cache_put T k p c) = bt_insert k p (pc_cache c)"
    by (simp add: cache_put_def)
  obtain n where n: "try_evict T (cache_put T k p c) = shed T n (cache_put T k p c)"
    "evict_stops T (cache_put T k p c) n" using try_evict_shed by blast
  have first: "bt_first (drop n m) = Some (m ! n)" if "drop n m \<noteq> []" for m :: "('l \<times> 'p) list"
    using that by (auto simp: bt_first_Some hd_drop_conv_nth)
  have "need_evict (shed T n (cache_put T k p c)) \<longrightarrow>
      (\<forall>e. bt_first (drop n (bt_insert k p (pc_cache c))) = Some e \<longrightarrow> \<not> evictable c (fst e))"
    using n(2) unfolding evict_stops_def cache cache_put_facts(1) by blast
  with first [of "bt_insert k p (pc_cache c)"]
  have stop: "\<not> need_evict (shed T n (cache_put T k p c)) \<or> drop n (bt_insert k p (pc_cache c)) = []
      \<or> \<not> evictable c (fst (bt_insert k p (pc_cache c) ! n))" by blast
  have "n \<le> length (bt_insert k p (pc_cache c))
      \<and> (\<forall>e \<in> set (take n (bt_insert k p (pc_cache c))). evictable c (fst e))
      \<and> (\<forall>m < n. need_evict (shed T m (cache_put T k p c)))"
    using n(2) by (simp add: evict_stops_def cache)
  with stop n(1) cache show ?thesis by (intro exI [of _ n]) (simp add: cache_insert_put)
qed

theorem insert_evicts_minimally_witness:
  "\<exists>n. pc_cache (cache_insert test_types (1, 2) ''b''
      \<lparr>pc_max_items = 1, pc_capacity = 9, pc_size = 1, pc_cache = [((1, 1), ''a'')],
       pc_last_evictable = Some (1, 1)\<rparr>) = drop n [((1, 1), ''a''), ((1, 2), ''b'')]"
proof -
  let ?c = "\<lparr>pc_max_items = 1, pc_capacity = 9, pc_size = 1, pc_cache = [((1, 1), ''a'')],
       pc_last_evictable = Some (1, 1)\<rparr> :: (test_id, string) payload_cache"
  have "bt_insert (1, 2) ''b'' (pc_cache ?c) = [((1, 1), ''a''), ((1, 2), ''b'')]" by simp
  with insert_evicts_minimally [of "(1, 2)" "''b''" ?c test_types] show ?thesis by metis
qed

text \<open>After an insert the cache is within both limits, or everything left in it is
  above the boundary and so not allowed to go.\<close>

theorem insert_within_limits:
  assumes "cache_wf c"
  shows "\<not> need_evict (cache_insert T k p c)
    \<or> list_all (\<lambda>e. \<not> evictable c (fst e)) (pc_cache (cache_insert T k p c))"
proof -
  have wf: "bt_wf (pc_cache (cache_insert T k p c))"
    using cache_wf_insert [OF assms] by (simp add: cache_wf_def)
  have "\<not> evictable c (fst e)"
    if "\<forall>k'. cache_get (cache_insert T k p c) k' \<noteq> None \<longrightarrow> \<not> evictable c k'"
      "e \<in> set (pc_cache (cache_insert T k p c))" for e
  proof -
    from that(2) have "cache_get (cache_insert T k p c) (fst e) = Some (snd e)"
      using bt_get_Some_iff [OF wf, of "fst e" "snd e"] by (simp add: cache_get_def)
    with that(1) show ?thesis by simp
  qed
  with try_evict_stop [of "cache_put T k p c" T] assms show ?thesis
    by (auto simp: cache_insert_put [symmetric] list_all_iff)
qed

definition full_cache :: "(test_id, string) payload_cache" where
  "full_cache = \<lparr>pc_max_items = 1, pc_capacity = 9, pc_size = 1, pc_cache = [((1, 0), ''a'')],
                 pc_last_evictable = Some (1, 5)\<rparr>"

theorem insert_within_limits_witness:
  "\<not> need_evict (cache_insert test_types (1, 1) ''b'' full_cache)"
proof -
  have "cache_wf full_cache" by (simp add: full_cache_def cache_wf_def bt_wf_def)
  moreover have "\<not> list_all (\<lambda>e. \<not> evictable full_cache (fst e))
      (pc_cache (cache_insert test_types (1, 1) ''b'' full_cache))"
    by (simp add: full_cache_def cache_insert_def try_evict.simps need_evict_def bt_first_def
        evict_first_def bt_pop_first_def evictable_def word_less_nat_alt word_le_nat_alt
        test_types_def)
  ultimately show ?thesis
    using insert_within_limits [of full_cache test_types "(1, 1)" "''b''"] by simp
qed

text \<open>C25: Invariant. As long as no insert replaces a payload that is cached, the byte counter is the
  sum of the sizes of the cached payloads, modulo the width of \<open>usize\<close>, after any sequence
  of operations; the keys stay strictly ascending, and the limits never change.\<close>

theorem size_counter_exact:
  assumes "cache_wf c" and "pc_size c = total_payload T (pc_cache c)"
    and "along (cache_step T) fresh_insert c ops"
  shows "pc_size (foldl (cache_step T) c ops) = total_payload T (pc_cache (foldl (cache_step T) c ops))
    \<and> cache_wf (foldl (cache_step T) c ops)
    \<and> pc_max_items (foldl (cache_step T) c ops) = pc_max_items c
    \<and> pc_capacity (foldl (cache_step T) c ops) = pc_capacity c"
proof -
  have "cache_inv T c" using assms(1,2) by (simp add: cache_inv_def cache_sized_def)
  from pc.run_inv [OF this assms(3)] pc.run_grows [OF this assms(3)] show ?thesis
    by (simp add: cache_inv_def cache_sized_def same_limits_def)
qed

theorem size_counter_exact_witness:
  "pc_size (foldl (cache_step test_types) (cache_new 5 9)
      [OpInsert (1, 1) ''ab'', OpInsert (1, 2) ''c'', OpTruncate (1, 1)])
    = total_payload test_types (pc_cache (foldl (cache_step test_types) (cache_new 5 9)
      [OpInsert (1, 1) ''ab'', OpInsert (1, 2) ''c'', OpTruncate (1, 1)]))"
proof -
  let ?ops = "[OpInsert (1, 1) ''ab'', OpInsert (1, 2) ''c'', OpTruncate (1, 1)]
      :: (test_id, string) cache_op list"
  let ?c = "cache_new 5 9 :: (test_id, string) payload_cache"
  have "along (cache_step test_types) fresh_insert ?c ?ops"
    by (simp add: fresh_insert_def cache_insert_def cache_new_def try_evict.simps need_evict_def
        cache_get_def bt_get_def word_less_nat_alt)
  with size_counter_exact [of ?c test_types ?ops] show ?thesis
    by (simp add: cache_wf_def cache_new_def)
qed

text \<open>C26: Equivalence. The pop loops compute filters of the cached payloads: draining drops what is
  evictable, purging what is at or below the key and evictable, truncation what is above
  the key; the payloads that stay are untouched and in order.\<close>

theorem loops_are_filters:
  assumes "cache_wf c"
  shows "pc_cache (drain_evictable T c) = filter (\<lambda>e. \<not> evictable c (fst e)) (pc_cache c)
    \<and> pc_cache (cache_purge_upto T key c)
        = filter (\<lambda>e. \<not> (fst e \<le> key \<and> evictable c (fst e))) (pc_cache c)
    \<and> pc_cache (cache_truncate_after T key c) = filter (\<lambda>e. fst e \<le> key) (pc_cache c)"
  using assms by (simp add: drain_filter purge_filter truncate_filter)

theorem loops_are_filters_witness:
  "pc_cache (cache_truncate_after test_types (1, 1)
      \<lparr>pc_max_items = 5, pc_capacity = 9, pc_size = 2,
       pc_cache = [((1, 1), ''a''), ((1, 2), ''b'')], pc_last_evictable = None\<rparr>) = [((1, 1), ''a'')]"
proof -
  let ?c = "\<lparr>pc_max_items = 5, pc_capacity = 9, pc_size = 2,
       pc_cache = [((1, 1), ''a''), ((1, 2), ''b'')], pc_last_evictable = None\<rparr>
       :: (test_id, string) payload_cache"
  have "cache_wf ?c" by (simp add: cache_wf_def btree_simps)
  from loops_are_filters [OF this, of test_types "(1, 1)"]
  have "pc_cache (cache_truncate_after test_types (1, 1) ?c) = filter (\<lambda>e. fst e \<le> (1, 1)) (pc_cache ?c)"
    by blast
  then show ?thesis by (simp add: word_le_nat_alt)
qed


end
