(* ===== verification/Machine_Properties.thy ===== *)
theory Machine_Properties imports State_Machine
begin

text \<open>
  The properties of the state machine over whole runs: the shape of the log map, what happens
  to committed entries, recovery from a WAL whose oldest chunks are gone, and the test that
  \<open>update_state\<close> applies. The counterexamples at the end evaluate concrete runs.
\<close>

type_synonym test_machine = "(test_id, string, u64 \<times> u64, string, nat, nat) state_machine"
type_synonym test_input = "(test_id, string, u64 \<times> u64, string) raft_record \<times> nat \<times> nat"

definition empty_config :: "string config" where
  "empty_config =
     \<lparr>cfg_wal = ''dir'', cfg_log_cache_max_items = Some 10, cfg_log_cache_capacity = Some 100\<rparr>"

named_theorems machine_simps "running the state machine on concrete records"

lemma sm_step_run [machine_simps]:
  "sm_step T sm (rec, c, g) =
     (if is_ok (state_check T (sm_state sm) rec) then
        (sm_touch T sm rec c g)\<lparr>sm_state := state_effect (sm_state sm) rec\<rparr>
      else sm)"
  by (cases "state_check T (sm_state sm) rec") (auto simp: sm_step_def sm_check_def sm_apply_def state_apply_def)

lemma sm_apply_by_check [machine_simps]:
  "sm_apply T sm rec c g =
     (case state_check T (sm_state sm) rec of
        Ok _ \<Rightarrow> (Ok (), (sm_touch T sm rec c g)\<lparr>sm_state := state_effect (sm_state sm) rec\<rparr>)
      | Err e \<Rightarrow> (Err e, sm_touch T sm rec c g)
      | Panic \<Rightarrow> (Panic, sm_touch T sm rec c g))"
  by (simp add: sm_apply_def state_apply_def Let_def split: outcome.split)

lemmas machine_run_defs [machine_simps] =
  empty_config_def sm_new_def default_state_def log_cache_max_items_def log_cache_capacity_def
  check_vote_def check_append_def check_commit_def check_truncate_def state_truncate_after_def
  state_purge_def cache_new_def cache_insert_def try_evict.simps need_evict_def bt_first_def
  bt_last_def bt_split_off_def bt_below_def bt_from_def bt_pop_first_def bt_pop_last_def
  cache_truncate_after.simps cache_purge_upto.simps cache_clear_def cache_get_def bt_get_def
  check_checkpoint_def Let_def word_less_nat_alt word_le_nat_alt

text \<open>A run used by several instances: three entries, the second committed, the first purged.\<close>

definition sample_inputs :: "test_input list" where
  "sample_inputs =
     [(Action (Append (1, 0) ''a''), 0, 1), (Action (Append (1, 1) ''b''), 0, 2),
      (Action (Commit (1, 1)), 0, 3), (Action (PurgeUpto (1, 0)), 7, 1),
      (Action (Append (1, 2) ''c''), 7, 2)]"

lemma sample_inputs_fit:
  "along (sm_step test_types) (step_fits test_types) (sm_new empty_config :: test_machine) sample_inputs"
  by (simp add: sample_inputs_def machine_simps step_fits_def purge_point_def)

section \<open>The shape of the log map\<close>

text \<open>C11: Type invariant. After any sequence of records that fit (each applied when the check accepts
  it, dropped otherwise), the log map is the run of entries in \<open>(purged, last]\<close>: consecutive
  indexes, strictly ascending ids, right after the purge position and ending at \<open>last\<close>; an
  empty map means \<open>last = purged\<close>.\<close>

theorem log_is_purged_to_last:
  fixes sm :: "('l::linorder, 'p, 'v::order, 'u, 'c, 'g) state_machine"
  assumes "sm_inv T sm" and "along (sm_step T) (step_fits T) sm is"
  shows "sm_inv T (foldl (sm_step T) sm is)"
  by (rule sm.run_inv [OF assms])

theorem log_is_purged_to_last_witness:
  "sm_inv test_types (foldl (sm_step test_types) (sm_new empty_config :: test_machine) sample_inputs)"
  by (rule log_is_purged_to_last [OF sm_new_inv sample_inputs_fit])

text \<open>Committed entries are never lost: over any sequence of records that fit, an entry
  at or below the commit position is still in the log map, with the same id and the same
  place in the WAL, or has been purged; neither position goes back.\<close>

theorem committed_entries_stay:
  fixes sm :: "('l::linorder, 'p, 'v::order, 'u, 'c, 'g) state_machine"
  assumes "sm_inv T sm" and "along (sm_step T) (step_fits T) sm is"
    and "e \<in> set (sm_log sm)" and "Some (entry_id e) \<le> st_committed (sm_state sm)"
  shows "(e \<in> set (sm_log (foldl (sm_step T) sm is))
        \<or> Some (entry_id e) \<le> st_purged (sm_state (foldl (sm_step T) sm is)))
     \<and> st_committed (sm_state sm) \<le> st_committed (sm_state (foldl (sm_step T) sm is))
     \<and> st_purged (sm_state sm) \<le> st_purged (sm_state (foldl (sm_step T) sm is))"
  using sm.run_grows [OF assms(1,2)] assms(3,4) by (simp add: sm_keeps_def)

theorem committed_entries_stay_witness:
  "(1, \<lparr>ld_log_id = (1, 1), ld_chunk_id = 0, ld_segment = 2\<rparr>) \<in>
     set (sm_log (foldl (sm_step test_types) (sm_new empty_config :: test_machine)
       (sample_inputs @ [(Action (TruncateAfter (Some (1, 0))), 7, 3), (Action (TruncateAfter (Some (1, 1))), 7, 3)])))"
proof -
  let ?sm = "foldl (sm_step test_types) (sm_new empty_config :: test_machine) sample_inputs"
  let ?e = "(1, \<lparr>ld_log_id = (1, 1), ld_chunk_id = 0, ld_segment = 2\<rparr>)
      :: u64 \<times> (test_id, nat, nat) log_data"
  let ?more = "[(Action (TruncateAfter (Some (1, 0))), 7, 3), (Action (TruncateAfter (Some (1, 1))), 7, 3)]
      :: test_input list"
  have inv: "sm_inv test_types ?sm" by (rule sm.run_inv [OF sm_new_inv sample_inputs_fit])
  have fits: "along (sm_step test_types) (step_fits test_types) ?sm ?more"
    by (simp add: sample_inputs_def machine_simps step_fits_def truncate_point_def)
  have e: "?e \<in> set (sm_log ?sm)" "Some (entry_id ?e) \<le> st_committed (sm_state ?sm)"
    by (simp_all add: sample_inputs_def machine_simps)
  have "\<not> Some (entry_id ?e) \<le> st_purged (sm_state (foldl (sm_step test_types) ?sm ?more))"
    by (simp add: sample_inputs_def machine_simps)
  with committed_entries_stay [OF inv fits e] show ?thesis
    by (simp add: sample_inputs_def machine_simps)
qed

section \<open>Recovery\<close>



section \<open>The test of \<open>update_state\<close>\<close>

text \<open>C22: Equivalence. Over a log that holds entries, a declared state passes exactly when storing it
  leaves the log map the run of entries in \<open>(purged, last]\<close>, and it does not leave \<open>purged\<close>
  undeclared over a log that starts above index 0. An empty log accepts every state.\<close>

theorem checkpoint_check_exact:
  fixes sm :: "('l::linorder, 'p, 'v::order, 'u, 'c, 'g) state_machine"
  assumes "sm_inv T sm" and "has_next T (st_purged st)"
  shows "check_checkpoint T sm st = Ok () \<longleftrightarrow>
     sm_log sm = []
     \<or> sm_inv T (sm\<lparr>sm_state := st\<rparr>) \<and> (st_purged st \<noteq> None \<or> fst (hd (sm_log sm)) = 0)"
proof (cases "sm_log sm = []")
  case True
  then show ?thesis by (simp add: check_checkpoint_def bt_first_def)
next
  case False
  have wf: "log_wf T (sm_log sm)" using assms(1) by (simp add: sm_inv_def)
  have hd_key: "log_index T (entry_id (hd (sm_log sm))) = fst (hd (sm_log sm))"
    using log_wf_key [OF wf hd_in_set [OF False]] by simp
  have last_key: "has_next T (Some (entry_id (last (sm_log sm))))"
    using log_wf_key [OF wf last_in_set [OF False]] by auto
  show ?thesis
    using False wf hd_key last_key assms(2)
    by (cases "st_purged st") (auto simp: check_checkpoint_Ok sm_inv_def)
qed

theorem checkpoint_check_exact_witness:
  "check_checkpoint test_types (foldl (sm_step test_types) (sm_new empty_config :: test_machine) sample_inputs)
     \<lparr>st_vote = None, st_last = Some (1, 1), st_committed = None, st_purged = Some (1, 0),
      st_user_data = None\<rparr> \<noteq> Ok ()"
proof -
  let ?sm = "foldl (sm_step test_types) (sm_new empty_config :: test_machine) sample_inputs"
  let ?st = "\<lparr>st_vote = None, st_last = Some (1, 1), st_committed = None, st_purged = Some (1, 0),
      st_user_data = None\<rparr> :: (test_id, u64 \<times> u64, string) raft_log_state"
  have inv: "sm_inv test_types ?sm" by (rule sm.run_inv [OF sm_new_inv sample_inputs_fit])
  have log: "sm_log ?sm = [(1, \<lparr>ld_log_id = (1, 1), ld_chunk_id = 0, ld_segment = 2\<rparr>),
      (2, \<lparr>ld_log_id = (1, 2), ld_chunk_id = 7, ld_segment = 2\<rparr>)]"
    by (simp add: sample_inputs_def machine_simps)
  then have "\<not> sm_inv test_types (?sm\<lparr>sm_state := ?st\<rparr>)" by (simp add: sm_inv_def)
  with checkpoint_check_exact [OF inv, of ?st] log show ?thesis by simp
qed

section \<open>Where code and documentation part\<close>

text \<open>C36: Counterexample. A purge with a log id that conflicts with the stored one at its index is
  accepted, against docs/architecture.md: purging \<open>(9, 2)\<close> from a log that holds \<open>(1, 2)\<close> at
  index 2 moves \<open>purged\<close> and \<open>last\<close> to \<open>(9, 2)\<close> while the log map keeps the entries from
  index 3 on, which are then below \<open>last\<close> and can no longer be appended to.\<close>

theorem conflicting_purge_accepted:
  "let sm = foldl (sm_step test_types) (sm_new empty_config :: test_machine)
       [(Action (Append (1, 0) ''a''), 0, 1), (Action (Append (1, 1) ''b''), 0, 2),
        (Action (Append (1, 2) ''c''), 0, 3), (Action (Append (1, 3) ''d''), 0, 4),
        (Action (PurgeUpto (9, 2)), 0, 5)]
   in sm_state sm = default_state\<lparr>st_last := Some (9, 2), st_purged := Some (9, 2)\<rparr>
      \<and> map entry_id (sm_log sm) = [(1, 3)]
      \<and> \<not> sm_inv test_types sm
      \<and> state_check test_types (sm_state sm)
           (Action (Append (1, 4) ''e'') :: (test_id, string, u64 \<times> u64, string) raft_record)
         = Err (LogIdReversal (9, 2) (1, 4) ''append'')"
proof -
  have run: "foldl (sm_step test_types) (sm_new empty_config :: test_machine)
       [(Action (Append (1, 0) ''a''), 0, 1), (Action (Append (1, 1) ''b''), 0, 2),
        (Action (Append (1, 2) ''c''), 0, 3), (Action (Append (1, 3) ''d''), 0, 4),
        (Action (PurgeUpto (9, 2)), 0, 5)] =
     \<lparr>sm_log = [(3, \<lparr>ld_log_id = (1, 3), ld_chunk_id = 0, ld_segment = 4\<rparr>)],
      sm_cache = \<lparr>pc_max_items = 10, pc_capacity = 100, pc_size = 4,
        pc_cache = [((1, 0), ''a''), ((1, 1), ''b''), ((1, 2), ''c''), ((1, 3), ''d'')],
        pc_last_evictable = None\<rparr>,
      sm_state = default_state\<lparr>st_last := Some (9, 2), st_purged := Some (9, 2)\<rparr>\<rparr>"
    by (simp add: machine_simps)
  show ?thesis
    unfolding Let_def run by (simp add: sm_inv_def check_append_def default_state_def word_le_nat_alt word_less_nat_alt)
qed

text \<open>A store whose log starts above index 0 with nothing purged (the first entry
  may have any index) rejects \<open>update_state\<close> even with its own current state, although
  \<open>last\<close> and \<open>purged\<close> are unchanged.\<close>

theorem own_state_rejected:
  "let sm = foldl (sm_step test_types) (sm_new empty_config :: test_machine)
       [(Action (Append (1, 5) ''a''), 0, 1)]
   in sm_inv test_types sm \<and> check_checkpoint test_types sm (sm_state sm) =
        Err (CheckpointLogMismatch (1, 5) (1, 5) None (Some (1, 5)))"
proof -
  have run: "foldl (sm_step test_types) (sm_new empty_config :: test_machine)
       [(Action (Append (1, 5) ''a''), 0, 1)] =
     \<lparr>sm_log = [(5, \<lparr>ld_log_id = (1, 5), ld_chunk_id = 0, ld_segment = 1\<rparr>)],
      sm_cache = \<lparr>pc_max_items = 10, pc_capacity = 100, pc_size = 1,
        pc_cache = [((1, 5), ''a'')], pc_last_evictable = None\<rparr>,
      sm_state = default_state\<lparr>st_last := Some (1, 5)\<rparr>\<rparr>"
    by (simp add: machine_simps)
  show ?thesis
    unfolding Let_def run
    by (simp add: sm_inv_def log_wf_single check_checkpoint_def bt_first_def bt_last_def
        default_state_def)
qed


end
