(* ===== verification/Num_Format.thy ===== *)
theory Num_Format imports RL_Prelude
begin

text \<open>
  \<open>src/num.rs\<close>: decimal numbers padded to a width and grouped in threes with underscores.
  The fold over the characters is that of the source; the lemmas turn it into a recursion
  from the front of the string, and describe the result from its right end.
\<close>

section \<open>The code\<close>

text \<open>\<open>format!("{:0width$}", n, width = min_width)\<close>.\<close>

definition pad_dec :: "nat \<Rightarrow> nat \<Rightarrow> string" where
  "pad_dec width n =
     (let s = dec_string n in replicate (width - length s) (CHR ''0'') @ s)"

definition format_grouped :: "u64 \<Rightarrow> nat \<Rightarrow> string" where
  "format_grouped n min_width =
     (let s = pad_dec min_width (unat n);
          len = length s
      in fold (\<lambda>(i, c) acc.
           (if 0 < i \<and> (len - i) mod 3 = 0 then acc @ ''_'' else acc) @ [c])
         (enumerate 0 s) '''')"

definition format_pad9_u64 :: "u64 \<Rightarrow> string" where
  "format_pad9_u64 n = format_grouped n 9"

section \<open>From the front\<close>

fun group3 :: "string \<Rightarrow> string" where
  "group3 [] = []"
| "group3 [c] = [c]"
| "group3 (c # d # s) =
     c # (if length (d # s) mod 3 = 0 then CHR ''_'' # group3 (d # s) else group3 (d # s))"

lemma fold_group3:
  assumes "i + length s = len"
  shows "fold (\<lambda>(i, c) acc. (if 0 < i \<and> (len - i) mod 3 = 0 then acc @ ''_'' else acc) @ [c])
      (enumerate i s) acc =
    acc @ (if 0 < i \<and> s \<noteq> [] \<and> length s mod 3 = 0 then ''_'' else []) @ group3 s"
  using assms
proof (induction s arbitrary: i acc)
  case (Cons c s)
  have len: "len - i = length (c # s)" and next_i: "Suc i + length s = len" using Cons.prems by auto
  show ?case
    by (cases s) (use Cons.IH [OF next_i] len in \<open>auto simp: enumerate_Suc_eq\<close>)
qed simp

lemma format_grouped_group3: "format_grouped n w = group3 (pad_dec w (unat n))"
  by (simp add: format_grouped_def Let_def fold_group3)

section \<open>From the right end\<close>

lemma group3_length: "s \<noteq> [] \<Longrightarrow> length (group3 s) = length s + (length s - 1) div 3"
  by (induction s rule: group3.induct) (auto simp: div_Suc)

lemma group3_digits: "CHR ''_'' \<notin> set s \<Longrightarrow> filter (\<lambda>c. c \<noteq> CHR ''_'') (group3 s) = s"
  by (induction s rule: group3.induct) auto

definition grouped :: "string \<Rightarrow> bool" where
  "grouped s = list_all (\<lambda>(j, c). (c = CHR ''_'') = (j mod 4 = 3)) (enumerate 0 (rev s))"

lemma grouped_Cons:
  "grouped (c # s) \<longleftrightarrow> grouped s \<and> (c = CHR ''_'') = (length s mod 4 = 3)"
  by (simp add: grouped_def enumerate_append_eq)

lemma group3_grouped: "CHR ''_'' \<notin> set s \<Longrightarrow> grouped (group3 s)"
proof (induction s rule: group3.induct)
  case (3 c d s)
  have len: "length (group3 (d # s)) = length (d # s) + length s div 3"
    using group3_length [of "d # s"] by simp
  show ?case
  proof (cases "length (d # s) mod 3 = 0")
    case True
    then have "length (group3 (d # s)) mod 4 = 3" unfolding len by simp presburger
    then have "Suc (length (group3 (d # s))) mod 4 \<noteq> 3" by presburger
    moreover have "c \<noteq> CHR ''_''" using "3.prems" by auto
    ultimately show ?thesis
      using True 3 \<open>length (group3 (d # s)) mod 4 = 3\<close> by (simp add: grouped_Cons)
  next
    case False
    then have "length (group3 (d # s)) mod 4 \<noteq> 3" unfolding len by simp presburger
    moreover have "c \<noteq> CHR ''_''" using "3.prems" by auto
    ultimately show ?thesis using False 3 by (simp add: grouped_Cons)
  qed
qed (simp_all add: grouped_def)

lemma is_digit_literals: "is_digit (CHR ''0'')" "\<not> is_digit (CHR ''_'')"
  by (simp_all add: is_digit_def)

lemma pad_dec_digits: "c \<in> set (pad_dec w n) \<Longrightarrow> is_digit c"
  using dec_string_digits [of n] by (auto simp: pad_dec_def Let_def is_digit_literals)

lemma pad_dec_plain: "CHR ''_'' \<notin> set (pad_dec w n)"
  using pad_dec_digits [of "CHR ''_''" w n] is_digit_literals(2) by blast

lemma parse_zeros: "parse_dec (replicate k (CHR ''0'') @ s) = parse_dec s"
  by (induction k) simp_all

lemma parse_pad_dec [simp]: "parse_dec (pad_dec w n) = n"
  by (simp add: pad_dec_def Let_def parse_zeros)

lemma pad_dec_length: "w \<le> length (pad_dec w n)"
  by (simp add: pad_dec_def Let_def)

section \<open>Properties\<close>

text \<open>C34: Round trip. Dropping the underscores of a formatted number leaves its decimal digits, at
  least as many as the minimal width, and reading them gives the number back; underscores stand
  exactly at every fourth place counted from the right, so that they separate groups of three
  digits, and never start the number.\<close>

theorem format_reads_back:
  "parse_dec (filter (\<lambda>c. c \<noteq> CHR ''_'') (format_grouped n w)) = unat n
   \<and> w \<le> length (filter (\<lambda>c. c \<noteq> CHR ''_'') (format_grouped n w))
   \<and> grouped (format_grouped n w) \<and> hd (format_grouped n w) \<noteq> CHR ''_''"
proof -
  have "pad_dec w (unat n) \<noteq> []" by (simp add: pad_dec_def Let_def)
  then have "hd (group3 (pad_dec w (unat n))) = hd (pad_dec w (unat n))"
    by (cases "pad_dec w (unat n)" rule: group3.cases) auto
  moreover have "hd (pad_dec w (unat n)) \<noteq> CHR ''_''"
    using pad_dec_plain [of w "unat n"] \<open>pad_dec w (unat n) \<noteq> []\<close> by (metis list.set_sel(1))
  ultimately show ?thesis
    by (simp add: format_grouped_group3 group3_digits group3_grouped pad_dec_plain pad_dec_length)
qed

text \<open>The values of the unit test.\<close>

lemma replicate_small: "replicate 2 c = [c, c]" "replicate 3 c = [c, c, c]"
  by (simp_all add: numeral_eq_Suc)

lemma format_pad9_tests:
  "format_pad9_u64 18446744073709551615 = ''18_446_744_073_709_551_615''"
  "format_pad9_u64 10100000000001200000 = ''10_100_000_000_001_200_000''"
  "format_pad9_u64 1200000 = ''001_200_000''"
  "format_pad9_u64 120000 = ''000_120_000''"
  by (simp_all add: format_pad9_u64_def format_grouped_group3 pad_dec_def Let_def dec_string.simps
      digit_char_def replicate_small)

end
