(* ===== verification/Codec.thy ===== *)
theory Codec imports Raft_State Wal_Interface
begin

text \<open>
  The on-disk format: \<open>Encode\<close> and \<open>Decode\<close> of \<open>RaftLogState\<close>
  (\<open>src/raft_log/state_machine/raft_log_state.rs\<close>) and of \<open>RaftLogAction\<close>
  (\<open>src/raft_log/raft_log_action.rs\<close>). A writer is the bytes written so far, a reader the bytes
  not yet read.

  The codecs of the primitive types, of options and of the type parameters, and the
  checksum, come from the crates \<open>codeq\<close> and \<open>byteorder\<close>; they are the dictionary \<open>codecs\<close>. The
  locale \<open>codec\<close> is what \<open>codeq\<close> asks of an implementation: it writes some bytes, returns
  their number, and reads exactly them back. The locale \<open>raft_codecs\<close> assumes it of the
  parameters, and its sublocales prove it of the two codecs of this program.
\<close>

type_synonym bytes = "u8 list"

record 'a codec =
  enc :: "'a \<Rightarrow> bytes \<Rightarrow> (nat, bytes) call"
  dec :: "bytes \<Rightarrow> ('a, bytes) call"

text \<open>
  \<open>write_sum data w\<close> is \<open>write_checksum\<close> of a checksum writer that has passed \<open>data\<close> on to
  \<open>w\<close>; \<open>verify_sum context data r\<close> is \<open>verify_checksum\<close> of a checksum reader that has handed
  out \<open>data\<close>.
\<close>

record ('l, 'p, 'v, 'u) codecs =
  cd_u8 :: "u8 codec"
  cd_u32_be :: "u32 codec"
  cd_vote :: "'v codec"
  cd_log_id :: "'l codec"
  cd_payload :: "'p codec"
  cd_opt_vote :: "'v option codec"
  cd_opt_log_id :: "'l option codec"
  cd_opt_user_data :: "'u option codec"
  write_sum :: "bytes \<Rightarrow> bytes \<Rightarrow> (nat, bytes) call"
  verify_sum :: "string \<Rightarrow> bytes \<Rightarrow> bytes \<Rightarrow> (unit, bytes) call"
  checkpoint_record_type :: u32

section \<open>RaftLogState\<close>

definition encode_state ::
  "('l, 'p, 'v, 'u) codecs \<Rightarrow> ('l, 'v, 'u) raft_log_state \<Rightarrow> bytes \<Rightarrow> (nat, bytes) call" where
  "encode_state C st w =
     sbind (enc (cd_u8 C) 1 w) (\<lambda>n w.
     sbind (enc (cd_opt_vote C) (st_vote st) w) (\<lambda>n1 w.
     sbind (enc (cd_opt_log_id C) (st_last st) w) (\<lambda>n2 w.
     sbind (enc (cd_opt_log_id C) (st_committed st) w) (\<lambda>n3 w.
     sbind (enc (cd_opt_log_id C) (st_purged st) w) (\<lambda>n4 w.
     sbind (enc (cd_opt_user_data C) (st_user_data st) w) (\<lambda>n5 w.
       (Ok (n + n1 + n2 + n3 + n4 + n5), w)))))))"

definition bad_version :: "u8 \<Rightarrow> io_error" where
  "bad_version ver =
     IoError InvalidData (''Unsupported RaftLogState version: '' @ dec_string (unat ver))"

definition decode_state ::
  "('l, 'p, 'v, 'u) codecs \<Rightarrow> bytes \<Rightarrow> (('l, 'v, 'u) raft_log_state, bytes) call" where
  "decode_state C r =
     sbind (dec (cd_u8 C) r) (\<lambda>ver r.
       if ver = 1 then
         sbind (dec (cd_opt_vote C) r) (\<lambda>vote r.
         sbind (dec (cd_opt_log_id C) r) (\<lambda>last r.
         sbind (dec (cd_opt_log_id C) r) (\<lambda>committed r.
         sbind (dec (cd_opt_log_id C) r) (\<lambda>purged r.
         sbind (dec (cd_opt_user_data C) r) (\<lambda>user_data r.
           (Ok \<lparr>st_vote = vote, st_last = last, st_committed = committed, st_purged = purged,
                st_user_data = user_data\<rparr>, r))))))
       else (Err (bad_version ver), r))"

section \<open>RaftLogAction\<close>

fun record_type :: "('l, 'p, 'v) raft_action \<Rightarrow> u32" where
  "record_type (SaveVote vote) = 0"
| "record_type (Append log_id payload) = 1"
| "record_type (Commit log_id) = 2"
| "record_type (TruncateAfter log_id) = 3"
| "record_type (PurgeUpto log_id) = 4"

fun encode_payload ::
  "('l, 'p, 'v, 'u) codecs \<Rightarrow> ('l, 'p, 'v) raft_action \<Rightarrow> bytes \<Rightarrow> (nat, bytes) call" where
  "encode_payload C (SaveVote vote) w = enc (cd_vote C) vote w"
| "encode_payload C (Append log_id payload) w =
     sbind (enc (cd_log_id C) log_id w) (\<lambda>n w.
     sbind (enc (cd_payload C) payload w) (\<lambda>m w. (Ok (n + m), w)))"
| "encode_payload C (Commit log_id) w = enc (cd_log_id C) log_id w"
| "encode_payload C (TruncateAfter log_id) w = enc (cd_opt_log_id C) log_id w"
| "encode_payload C (PurgeUpto log_id) w = enc (cd_log_id C) log_id w"

definition unknown_type :: "u32 \<Rightarrow> io_error" where
  "unknown_type typ = IoError InvalidData (''Unknown record type: '' @ dec_string (unat typ))"

definition decode_payload ::
  "('l, 'p, 'v, 'u) codecs \<Rightarrow> u32 \<Rightarrow> bytes \<Rightarrow> (('l, 'p, 'v) raft_action, bytes) call" where
  "decode_payload C typ r =
     (if typ = 0 then sbind (dec (cd_vote C) r) (\<lambda>vote r. (Ok (SaveVote vote), r))
      else if typ = 1 then
        sbind (dec (cd_log_id C) r) (\<lambda>log_id r.
        sbind (dec (cd_payload C) r) (\<lambda>payload r. (Ok (Append log_id payload), r)))
      else if typ = 2 then sbind (dec (cd_log_id C) r) (\<lambda>log_id r. (Ok (Commit log_id), r))
      else if typ = 3 then
        sbind (dec (cd_opt_log_id C) r) (\<lambda>log_id r. (Ok (TruncateAfter log_id), r))
      else if typ = 4 then sbind (dec (cd_log_id C) r) (\<lambda>log_id r. (Ok (PurgeUpto log_id), r))
      else (Err (unknown_type typ), r))"

definition reserved_type :: "u32 \<Rightarrow> io_error" where
  "reserved_type typ =
     IoError InvalidInput (''Action record type '' @ dec_string (unat typ)
       @ '' is reserved for checkpoint'')"

text \<open>The checksum covers what the checksum writer has passed on: the type and the payload.\<close>

definition encode_action ::
  "('l, 'p, 'v, 'u) codecs \<Rightarrow> ('l, 'p, 'v) raft_action \<Rightarrow> bytes \<Rightarrow> (nat, bytes) call" where
  "encode_action C a w =
     (let start = length w; typ = record_type a
      in if typ = checkpoint_record_type C then (Err (reserved_type typ), w)
         else
           sbind (enc (cd_u32_be C) typ w) (\<lambda>_ w.
           sbind (encode_payload C a w) (\<lambda>n w.
           sbind (write_sum C (drop start w) w) (\<lambda>m w.
             (Ok (4 + n + m), w)))))"

text \<open>What a reader at \<open>r\<close> has handed out when \<open>r'\<close> is left of it.\<close>

definition consumed :: "bytes \<Rightarrow> bytes \<Rightarrow> bytes" where
  "consumed r r' = take (length r - length r') r"

definition decode_action ::
  "('l, 'p, 'v, 'u) codecs \<Rightarrow> bytes \<Rightarrow> (('l, 'p, 'v) raft_action, bytes) call" where
  "decode_action C r0 =
     sbind (dec (cd_u32_be C) r0) (\<lambda>typ r.
     sbind (decode_payload C typ r) (\<lambda>rec r.
     sbind (verify_sum C ''Record::decode()'' (consumed r0 r) r) (\<lambda>_ r.
       (Ok rec, r))))"

section \<open>The interface\<close>

definition lawful_for :: "'a codec \<Rightarrow> 'a \<Rightarrow> bool" where
  "lawful_for c a \<longleftrightarrow>
     (\<exists>bs. (\<forall>w. enc c a w = (Ok (length bs), w @ bs)) \<and> (\<forall>r. dec c (bs @ r) = (Ok a, r)))"

definition lawful_sum ::
  "(bytes \<Rightarrow> bytes \<Rightarrow> (nat, bytes) call) \<Rightarrow> (string \<Rightarrow> bytes \<Rightarrow> bytes \<Rightarrow> (unit, bytes) call) \<Rightarrow> bool"
where
  "lawful_sum write verify \<longleftrightarrow>
     (\<forall>data. \<exists>bs. (\<forall>w. write data w = (Ok (length bs), w @ bs))
        \<and> (\<forall>context r. verify context data (bs @ r) = (Ok (), r)))"

lemma lawful_forE:
  assumes "lawful_for c a"
  obtains bs where "\<And>w. enc c a w = (Ok (length bs), w @ bs)" and "\<And>r. dec c (bs @ r) = (Ok a, r)"
  using assms unfolding lawful_for_def by blast

locale codec =
  fixes c :: "'a codec" and Vals :: "'a set"
  assumes lawful: "a \<in> Vals \<Longrightarrow> lawful_for c a"
begin

lemma round_trip:
  assumes "a \<in> Vals" and "enc c a w = (res, w')"
  shows "\<exists>bs. res = Ok (length bs) \<and> w' = w @ bs \<and> dec c (bs @ r) = (Ok a, r)"
  using lawful_forE [OF lawful [OF assms(1)]] assms(2) by (metis Pair_inject)

text \<open>Two values written one after the other are read back in turn.\<close>

lemma round_trip2:
  assumes "a \<in> Vals" and "b \<in> Vals"
  shows "\<exists>bs1 bs2. snd (enc c b (snd (enc c a []))) = bs1 @ bs2
     \<and> dec c (bs1 @ bs2) = (Ok a, bs2) \<and> dec c bs2 = (Ok b, [])"
proof -
  from lawful [OF assms(1)] obtain bs1 where
    1: "\<And>w. enc c a w = (Ok (length bs1), w @ bs1)" "\<And>r. dec c (bs1 @ r) = (Ok a, r)"
    by (auto elim: lawful_forE)
  from lawful [OF assms(2)] obtain bs2 where
    2: "\<And>w. enc c b w = (Ok (length bs2), w @ bs2)" "\<And>r. dec c (bs2 @ r) = (Ok b, r)"
    by (auto elim: lawful_forE)
  from 1 2(1) 2(2) [of "[]"] show ?thesis by auto
qed

end

locale raft_codecs =
  fixes C :: "('l, 'p, 'v, 'u) codecs"
    and Ls :: "'l set" and Ps :: "'p set" and Vs :: "'v set" and Us :: "'u set"
  assumes u8: "lawful_for (cd_u8 C) 1"
    and u32: "lawful_for (cd_u32_be C) typ" and u32_size: "fst (enc (cd_u32_be C) typ w) = Ok 4"
    and vote: "v \<in> Vs \<Longrightarrow> lawful_for (cd_vote C) v"
    and log_id: "l \<in> Ls \<Longrightarrow> lawful_for (cd_log_id C) l"
    and payload: "p \<in> Ps \<Longrightarrow> lawful_for (cd_payload C) p"
    and opt_vote: "set_option ov \<subseteq> Vs \<Longrightarrow> lawful_for (cd_opt_vote C) ov"
    and opt_log_id: "set_option ol \<subseteq> Ls \<Longrightarrow> lawful_for (cd_opt_log_id C) ol"
    and opt_user_data: "set_option ou \<subseteq> Us \<Longrightarrow> lawful_for (cd_opt_user_data C) ou"
    and checksum: "lawful_sum (write_sum C) (verify_sum C)"
    and checkpoint_type: "checkpoint_record_type C = 5"
begin

lemma state_lawful:
  assumes "set_option (st_vote st) \<subseteq> Vs" and "set_option (st_last st) \<subseteq> Ls"
    and "set_option (st_committed st) \<subseteq> Ls" and "set_option (st_purged st) \<subseteq> Ls"
    and "set_option (st_user_data st) \<subseteq> Us"
  shows "lawful_for \<lparr>enc = encode_state C, dec = decode_state C\<rparr> st"
proof -
  obtain b0 b1 b2 b3 b4 b5 where
    "\<And>w. enc (cd_u8 C) 1 w = (Ok (length b0), w @ b0)" "\<And>r. dec (cd_u8 C) (b0 @ r) = (Ok 1, r)"
    "\<And>w. enc (cd_opt_vote C) (st_vote st) w = (Ok (length b1), w @ b1)"
    "\<And>r. dec (cd_opt_vote C) (b1 @ r) = (Ok (st_vote st), r)"
    "\<And>w. enc (cd_opt_log_id C) (st_last st) w = (Ok (length b2), w @ b2)"
    "\<And>r. dec (cd_opt_log_id C) (b2 @ r) = (Ok (st_last st), r)"
    "\<And>w. enc (cd_opt_log_id C) (st_committed st) w = (Ok (length b3), w @ b3)"
    "\<And>r. dec (cd_opt_log_id C) (b3 @ r) = (Ok (st_committed st), r)"
    "\<And>w. enc (cd_opt_log_id C) (st_purged st) w = (Ok (length b4), w @ b4)"
    "\<And>r. dec (cd_opt_log_id C) (b4 @ r) = (Ok (st_purged st), r)"
    "\<And>w. enc (cd_opt_user_data C) (st_user_data st) w = (Ok (length b5), w @ b5)"
    "\<And>r. dec (cd_opt_user_data C) (b5 @ r) = (Ok (st_user_data st), r)"
    using u8 opt_vote [OF assms(1)] opt_log_id [OF assms(2)] opt_log_id [OF assms(3)]
      opt_log_id [OF assms(4)] opt_user_data [OF assms(5)]
    by (elim lawful_forE) blast
  then show ?thesis
    unfolding lawful_for_def
    by (intro exI [of _ "b0 @ b1 @ b2 @ b3 @ b4 @ b5"])
      (simp add: encode_state_def decode_state_def)
qed

lemma payload_lawful:
  assumes "set1_raft_action a \<subseteq> Ls" and "set2_raft_action a \<subseteq> Ps" and "set3_raft_action a \<subseteq> Vs"
  obtains bs where "\<And>w. encode_payload C a w = (Ok (length bs), w @ bs)"
    and "\<And>r. decode_payload C (record_type a) (bs @ r) = (Ok a, r)"
proof (cases a)
  case (SaveVote v)
  then have "lawful_for (cd_vote C) v" using assms vote by simp
  then show ?thesis using SaveVote that by (elim lawful_forE) (simp add: decode_payload_def)
next
  case (Append l p)
  then have "lawful_for (cd_log_id C) l" "lawful_for (cd_payload C) p" using assms log_id payload by simp_all
  then obtain b1 b2 where
    "\<And>w. enc (cd_log_id C) l w = (Ok (length b1), w @ b1)" "\<And>r. dec (cd_log_id C) (b1 @ r) = (Ok l, r)"
    "\<And>w. enc (cd_payload C) p w = (Ok (length b2), w @ b2)" "\<And>r. dec (cd_payload C) (b2 @ r) = (Ok p, r)"
    by (elim lawful_forE) blast
  then show ?thesis using Append by (intro that [of "b1 @ b2"]) (simp_all add: decode_payload_def)
next
  case (Commit l)
  then have "lawful_for (cd_log_id C) l" using assms log_id by simp
  then show ?thesis using Commit that by (elim lawful_forE) (simp add: decode_payload_def)
next
  case (TruncateAfter ol)
  then have "lawful_for (cd_opt_log_id C) ol" using assms opt_log_id by simp
  then show ?thesis using TruncateAfter that by (elim lawful_forE) (simp add: decode_payload_def)
next
  case (PurgeUpto l)
  then have "lawful_for (cd_log_id C) l" using assms log_id by simp
  then show ?thesis using PurgeUpto that by (elim lawful_forE) (simp add: decode_payload_def)
qed

lemma type_not_reserved: "record_type a \<noteq> checkpoint_record_type C"
  by (cases a) (simp_all add: checkpoint_type)

lemma action_lawful:
  assumes "set1_raft_action a \<subseteq> Ls" and "set2_raft_action a \<subseteq> Ps" and "set3_raft_action a \<subseteq> Vs"
  shows "lawful_for \<lparr>enc = encode_action C, dec = decode_action C\<rparr> a"
proof -
  obtain bs where payload_rt: "\<And>w. encode_payload C a w = (Ok (length bs), w @ bs)"
    "\<And>r. decode_payload C (record_type a) (bs @ r) = (Ok a, r)"
    using payload_lawful [OF assms] by blast
  obtain ty where ty: "\<And>w. enc (cd_u32_be C) (record_type a) w = (Ok (length ty), w @ ty)"
    "\<And>r. dec (cd_u32_be C) (ty @ r) = (Ok (record_type a), r)"
    using u32 [of "record_type a"] by (elim lawful_forE) blast
  have four: "length ty = 4" using u32_size [of "record_type a" "[]"] ty(1) [of "[]"] by simp
  obtain sm where sum: "\<And>w. write_sum C (ty @ bs) w = (Ok (length sm), w @ sm)"
    "\<And>context r. verify_sum C context (ty @ bs) (sm @ r) = (Ok (), r)"
    using checksum unfolding lawful_sum_def by metis
  have enc_a: "encode_action C a w = (Ok (length (ty @ bs @ sm)), w @ ty @ bs @ sm)" for w
    using ty(1) payload_rt(1) sum(1) [of "w @ ty @ bs"] four
    by (simp add: encode_action_def Let_def type_not_reserved)
  have "consumed (ty @ bs @ sm @ r) (sm @ r) = ty @ bs" for r
    by (simp add: consumed_def)
  then have "decode_action C ((ty @ bs @ sm) @ r) = (Ok a, r)" for r
    using ty(2) payload_rt(2) sum(2) by (simp add: decode_action_def)
  with enc_a show ?thesis
    unfolding lawful_for_def by (intro exI [of _ "ty @ bs @ sm"]) simp
qed

end

text \<open>The two codecs of the program are codecs, given lawful ones for their parts.\<close>

sublocale raft_codecs \<subseteq> state_cd: codec "\<lparr>enc = encode_state C, dec = decode_state C\<rparr>"
  "{st. set_option (st_vote st) \<subseteq> Vs \<and> set_option (st_last st) \<subseteq> Ls
     \<and> set_option (st_committed st) \<subseteq> Ls \<and> set_option (st_purged st) \<subseteq> Ls
     \<and> set_option (st_user_data st) \<subseteq> Us}"
  by unfold_locales (auto intro: state_lawful)

sublocale raft_codecs \<subseteq> action_cd: codec "\<lparr>enc = encode_action C, dec = decode_action C\<rparr>"
  "{a. set1_raft_action a \<subseteq> Ls \<and> set2_raft_action a \<subseteq> Ps \<and> set3_raft_action a \<subseteq> Vs}"
  by unfold_locales (auto intro: action_lawful)

end
