(* ===== verification/Codec_Properties.thy ===== *)
theory Codec_Properties imports Codec
begin

text \<open>
  The properties of the on-disk format, and a concrete instance of the parameters: fixed-width
  big-endian integers, length-prefixed strings, a tag byte before an option, as the byte
  vectors of the unit tests show them, with the checksum CRC-32 that \<open>codeq\<close> documents and
  the vectors confirm.
\<close>

section \<open>An instance of the parameters\<close>

fun be_bytes :: "nat \<Rightarrow> nat \<Rightarrow> bytes" where
  "be_bytes 0 v = []"
| "be_bytes (Suc k) v = be_bytes k (v div 256) @ [of_nat (v mod 256)]"

definition be_val :: "bytes \<Rightarrow> nat" where
  "be_val bs = foldl (\<lambda>a b. 256 * a + unat b) 0 bs"

lemma be_bytes_length [simp]: "length (be_bytes k v) = k"
  by (induction k arbitrary: v) auto

lemma be_val_bytes: "be_val (be_bytes k v) = v mod 256 ^ k"
proof (induction k arbitrary: v)
  case (Suc k)
  have "be_val (be_bytes (Suc k) v) = 256 * be_val (be_bytes k (v div 256)) + unat (of_nat (v mod 256) :: u8)"
    by (simp add: be_val_def)
  also have "unat (of_nat (v mod 256) :: u8) = v mod 256" by (simp add: unat_of_nat)
  also have "256 * be_val (be_bytes k (v div 256)) + v mod 256 = v mod 256 ^ Suc k"
    using Suc [of "v div 256"] by (simp add: mod_mult2_eq)
  finally show ?case .
qed (simp add: be_val_def)

definition fixed_codec :: "nat \<Rightarrow> ('a \<Rightarrow> nat) \<Rightarrow> (nat \<Rightarrow> 'a) \<Rightarrow> 'a codec" where
  "fixed_codec k to from =
     \<lparr>enc = (\<lambda>a w. (Ok k, w @ be_bytes k (to a))),
      dec = (\<lambda>r. if length r < k then (Err (IoError UnexpectedEof ''eof''), r)
                 else (Ok (from (be_val (take k r))), drop k r))\<rparr>"

lemma fixed_lawful: "from (to a mod 256 ^ k) = a \<Longrightarrow> lawful_for (fixed_codec k to from) a"
  unfolding lawful_for_def
  by (intro exI [of _ "be_bytes k (to a)"]) (simp add: fixed_codec_def be_val_bytes)

definition pair_codec :: "'a codec \<Rightarrow> 'b codec \<Rightarrow> ('a \<times> 'b) codec" where
  "pair_codec c d =
     \<lparr>enc = (\<lambda>ab w. sbind (enc c (fst ab) w) (\<lambda>n w. sbind (enc d (snd ab) w) (\<lambda>m w. (Ok (n + m), w)))),
      dec = (\<lambda>r. sbind (dec c r) (\<lambda>a r. sbind (dec d r) (\<lambda>b r. (Ok (a, b), r))))\<rparr>"

lemma pair_lawful:
  assumes "lawful_for c (fst ab)" and "lawful_for d (snd ab)"
  shows "lawful_for (pair_codec c d) ab"
proof -
  obtain b1 b2 where
    "\<And>w. enc c (fst ab) w = (Ok (length b1), w @ b1)" "\<And>r. dec c (b1 @ r) = (Ok (fst ab), r)"
    "\<And>w. enc d (snd ab) w = (Ok (length b2), w @ b2)" "\<And>r. dec d (b2 @ r) = (Ok (snd ab), r)"
    using assms by (elim lawful_forE) blast
  then show ?thesis
    unfolding lawful_for_def by (intro exI [of _ "b1 @ b2"]) (simp add: pair_codec_def)
qed

definition option_codec :: "'a codec \<Rightarrow> 'a option codec" where
  "option_codec c =
     \<lparr>enc = (\<lambda>x w. case x of
         None \<Rightarrow> (Ok 1, w @ [0])
       | Some a \<Rightarrow> sbind (enc c a (w @ [1])) (\<lambda>n w. (Ok (Suc n), w))),
      dec = (\<lambda>r. case r of
         [] \<Rightarrow> (Err (IoError UnexpectedEof ''eof''), r)
       | b # r \<Rightarrow> if b = 0 then (Ok None, r) else sbind (dec c r) (\<lambda>a r. (Ok (Some a), r)))\<rparr>"

lemma option_lawful:
  assumes "\<And>a. x = Some a \<Longrightarrow> lawful_for c a"
  shows "lawful_for (option_codec c) x"
proof (cases x)
  case None
  then show ?thesis
    unfolding lawful_for_def by (intro exI [of _ "[0]"]) (simp add: option_codec_def)
next
  case (Some a)
  with assms obtain bs where "\<And>w. enc c a w = (Ok (length bs), w @ bs)" "\<And>r. dec c (bs @ r) = (Ok a, r)"
    by (auto elim: lawful_forE)
  with Some show ?thesis
    unfolding lawful_for_def by (intro exI [of _ "1 # bs"]) (simp add: option_codec_def)
qed

definition u64_codec :: "u64 codec" where
  "u64_codec = fixed_codec 8 unat of_nat"

definition u32_codec :: "u32 codec" where
  "u32_codec = fixed_codec 4 unat of_nat"

definition u8_codec :: "u8 codec" where
  "u8_codec = fixed_codec 1 unat of_nat"

lemma int_codecs_lawful: "lawful_for u64_codec w" "lawful_for u32_codec x" "lawful_for u8_codec b"
proof -
  show "lawful_for u64_codec w"
    unfolding u64_codec_def by (rule fixed_lawful) (use unsigned_less [of w, where 'a = nat] in simp)
  show "lawful_for u32_codec x"
    unfolding u32_codec_def by (rule fixed_lawful) (use unsigned_less [of x, where 'a = nat] in simp)
  show "lawful_for u8_codec b"
    unfolding u8_codec_def by (rule fixed_lawful) (use unsigned_less [of b, where 'a = nat] in simp)
qed

definition string_codec :: "string codec" where
  "string_codec =
     \<lparr>enc = (\<lambda>s w. (Ok (4 + length s), w @ be_bytes 4 (length s) @ map of_char s)),
      dec = (\<lambda>r. let n = be_val (take 4 r)
                 in if length r < 4 + n then (Err (IoError UnexpectedEof ''eof''), r)
                    else (Ok (map (\<lambda>b. char_of (unat b)) (take n (drop 4 r))), drop (4 + n) r))\<rparr>"

lemma char_of_byte: "char_of (unat (of_char c :: u8)) = c"
proof -
  have "of_char c = (of_nat (of_char c) :: u8)" by (simp add: of_nat_of_char)
  moreover have "(of_char c :: nat) < 256" by (rule nat_of_char_less_256)
  ultimately have "unat (of_char c :: u8) = of_char c" by (simp add: unat_of_nat)
  then show ?thesis by simp
qed

lemma string_lawful: "length s < 256 ^ 4 \<Longrightarrow> lawful_for string_codec s"
  unfolding lawful_for_def
  by (intro exI [of _ "be_bytes 4 (length s) @ map of_char s"])
    (simp add: string_codec_def be_val_bytes comp_def char_of_byte)

text \<open>
  CRC-32 (reflected polynomial \<open>EDB88320\<close>), stored as a 64 bit number. The register is a list
  of 32 bits, the lowest first, and takes in one bit of the data at a time.
\<close>

definition crc_poly :: "bool list" where
  "crc_poly = map (bit (0xEDB88320 :: u32)) [0..<32]"

fun xor_bits :: "bool list \<Rightarrow> bool list \<Rightarrow> bool list" where
  "xor_bits (a # as) (b # bs) = (a \<noteq> b) # xor_bits as bs"
| "xor_bits as bs = []"

fun crc_step :: "bool list \<Rightarrow> bool \<Rightarrow> bool list" where
  "crc_step (c # cs) b = (if c = b then cs @ [False] else xor_bits (cs @ [False]) crc_poly)"
| "crc_step [] b = []"

definition byte_bits :: "u8 \<Rightarrow> bool list" where
  "byte_bits b = [bit b 0, bit b 1, bit b 2, bit b 3, bit b 4, bit b 5, bit b 6, bit b 7]"

definition crc32 :: "bytes \<Rightarrow> nat" where
  "crc32 data =
     foldr (\<lambda>b n. (if b then 0 else 1) + 2 * n)
       (foldl crc_step (replicate 32 True) (concat (map byte_bits data))) 0"

definition sum_codec :: "bytes \<Rightarrow> bytes" where
  "sum_codec data = be_bytes 8 (crc32 data)"

definition test_codecs :: "(test_id, string, u64 \<times> u64, string) codecs" where
  "test_codecs =
     \<lparr>cd_u8 = u8_codec, cd_u32_be = u32_codec, cd_vote = pair_codec u64_codec u64_codec,
      cd_log_id = pair_codec u64_codec u64_codec, cd_payload = string_codec,
      cd_opt_vote = option_codec (pair_codec u64_codec u64_codec),
      cd_opt_log_id = option_codec (pair_codec u64_codec u64_codec),
      cd_opt_user_data = option_codec string_codec,
      write_sum = (\<lambda>data w. (Ok 8, w @ sum_codec data)),
      verify_sum = (\<lambda>context data r.
        if take 8 r = sum_codec data then (Ok (), drop 8 r)
        else (Err (IoError InvalidData (''crc32 checksum mismatch '' @ context)), r)),
      checkpoint_record_type = 5\<rparr>"

interpretation test_cd: raft_codecs test_codecs UNIV "{s. length s < 256 ^ 4}" UNIV "{s. length s < 256 ^ 4}"
  by unfold_locales
    (auto simp: test_codecs_def int_codecs_lawful string_lawful lawful_sum_def sum_codec_def
      intro!: pair_lawful option_lawful exI [of _ "be_bytes 8 _"],
      simp_all add: u32_codec_def fixed_codec_def)

section \<open>The byte vectors of the unit tests\<close>

definition sample_state :: "(test_id, u64 \<times> u64, string) raft_log_state" where
  "sample_state =
     \<lparr>st_vote = Some (1, 2), st_last = Some (2, 3), st_committed = Some (4, 5),
      st_purged = Some (6, 7), st_user_data = Some ''hello''\<rparr>"

lemma be_bytes_numeral:
  "be_bytes (numeral k) v = be_bytes (pred_numeral k) (v div 256) @ [of_nat (v mod 256)]"
  unfolding numeral_eq_Suc [of k] by (rule be_bytes.simps)

lemma enc_test_parts:
  "enc u8_codec b w = (Ok 1, w @ be_bytes 1 (unat b))"
  "enc (option_codec (pair_codec u64_codec u64_codec)) (Some (x, y)) w =
     (Ok 17, w @ 1 # be_bytes 8 (unat x) @ be_bytes 8 (unat y))"
  "enc (option_codec string_codec) (Some s) w =
     (Ok (5 + length s), w @ 1 # be_bytes 4 (length s) @ map of_char s)"
  by (simp_all add: u8_codec_def u64_codec_def option_codec_def pair_codec_def fixed_codec_def
      string_codec_def)

lemma state_test_vector:
  "encode_state test_codecs sample_state [] =
     (Ok 79, [1, 1, 0,0,0,0,0,0,0,1, 0,0,0,0,0,0,0,2, 1, 0,0,0,0,0,0,0,2, 0,0,0,0,0,0,0,3,
              1, 0,0,0,0,0,0,0,4, 0,0,0,0,0,0,0,5, 1, 0,0,0,0,0,0,0,6, 0,0,0,0,0,0,0,7,
              1, 0,0,0,5, 104, 101, 108, 108, 111])"
  by (simp add: encode_state_def sample_state_def test_codecs_def enc_test_parts)
    (simp add: be_bytes_numeral)

lemma enc_test_ids:
  "enc u32_codec x w = (Ok 4, w @ be_bytes 4 (unat x))"
  "enc (pair_codec u64_codec u64_codec) (a, b) w = (Ok 16, w @ be_bytes 8 (unat a) @ be_bytes 8 (unat b))"
  "enc string_codec s w = (Ok (4 + length s), w @ be_bytes 4 (length s) @ map of_char s)"
  by (simp_all add: u32_codec_def u64_codec_def pair_codec_def fixed_codec_def string_codec_def)

lemma crc_poly_bits:
  "crc_poly = [False, False, False, False, False, True, False, False, True, True, False, False,
     False, False, False, True, False, False, False, True, True, True, False, True, True, False,
     True, True, False, True, True, True]"
  by (simp add: crc_poly_def upt_rec eval_nat_numeral)

lemma replicate_numeral: "replicate (numeral n) x = x # replicate (pred_numeral n) x"
  by (simp add: numeral_eq_Suc)

lemmas crc_simps = crc32_def byte_bits_def crc_poly_bits replicate_numeral

lemma encode_action_runs:
  "encode_action test_codecs a w =
     (let start = length w
      in sbind (enc u32_codec (record_type a) w) (\<lambda>_ w.
         sbind (encode_payload test_codecs a w) (\<lambda>n w.
           (Ok (12 + n), w @ sum_codec (drop start w)))))"
proof -
  have parts: "cd_u32_be test_codecs = u32_codec"
    "write_sum test_codecs = (\<lambda>data w. (Ok 8, w @ sum_codec data))" by (simp_all add: test_codecs_def)
  show ?thesis
    by (simp add: encode_action_def Let_def test_cd.type_not_reserved parts add.commute)
qed

lemma decodes_back:
  assumes "encode_action test_codecs a [] = (r, bs)" and "\<forall>p \<in> set2_raft_action a. length p < 256 ^ 4"
  shows "decode_action test_codecs bs = (Ok a, [])"
proof -
  have "lawful_for \<lparr>enc = encode_action test_codecs, dec = decode_action test_codecs\<rparr> a"
    using assms(2) by (intro test_cd.action_cd.lawful) auto
  then obtain cs where cs: "\<And>w. encode_action test_codecs a w = (Ok (length cs), w @ cs)"
    "\<And>r. decode_action test_codecs (cs @ r) = (Ok a, r)" by (elim lawful_forE) simp
  from cs(1) [of "[]"] cs(2) [of "[]"] assms(1) show ?thesis by simp
qed

text \<open>The records of the unit tests of \<open>raft_log_record.rs\<close> with their bytes.\<close>

definition test_vectors :: "((test_id, string, u64 \<times> u64) raft_action \<times> bytes) list" where
  "test_vectors =
     [(SaveVote (1, 2),
         [0,0,0,0, 0,0,0,0,0,0,0,1, 0,0,0,0,0,0,0,2, 0,0,0,0, 246,160,238,226]),
      (Append (1, 2) ''hello'',
         [0,0,0,1, 0,0,0,0,0,0,0,1, 0,0,0,0,0,0,0,2, 0,0,0,5, 104,101,108,108,111,
          0,0,0,0, 167,17,197,69]),
      (Commit (1, 2),
         [0,0,0,2, 0,0,0,0,0,0,0,1, 0,0,0,0,0,0,0,2, 0,0,0,0, 34,156,126,37]),
      (TruncateAfter (Some (1, 2)),
         [0,0,0,3, 1, 0,0,0,0,0,0,0,1, 0,0,0,0,0,0,0,2, 0,0,0,0, 213,81,166,197]),
      (PurgeUpto (1, 2),
         [0,0,0,4, 0,0,0,0,0,0,0,1, 0,0,0,0,0,0,0,2, 0,0,0,0, 133,168,201,45])]"

definition checkpoint_vector :: bytes where
  "checkpoint_vector =
     [0,0,0,5, 1, 1, 0,0,0,0,0,0,0,1, 0,0,0,0,0,0,0,2, 1, 0,0,0,0,0,0,0,2, 0,0,0,0,0,0,0,3,
      1, 0,0,0,0,0,0,0,4, 0,0,0,0,0,0,0,5, 1, 0,0,0,0,0,0,0,6, 0,0,0,0,0,0,0,7,
      1, 0,0,0,5, 104,101,108,108,111, 0,0,0,0, 121,106,111,41]"

lemma vector_sums:
  "sum_codec [0,0,0,0, 0,0,0,0,0,0,0,1, 0,0,0,0,0,0,0,2] = [0,0,0,0, 246,160,238,226]"
  "sum_codec [0,0,0,1, 0,0,0,0,0,0,0,1, 0,0,0,0,0,0,0,2, 0,0,0,5, 104,101,108,108,111] = [0,0,0,0, 167,17,197,69]"
  "sum_codec [0,0,0,2, 0,0,0,0,0,0,0,1, 0,0,0,0,0,0,0,2] = [0,0,0,0, 34,156,126,37]"
  "sum_codec [0,0,0,3, 1, 0,0,0,0,0,0,0,1, 0,0,0,0,0,0,0,2] = [0,0,0,0, 213,81,166,197]"
  "sum_codec [0,0,0,4, 0,0,0,0,0,0,0,1, 0,0,0,0,0,0,0,2] = [0,0,0,0, 133,168,201,45]"
  by (simp_all add: sum_codec_def crc_simps be_bytes_numeral)

lemma vector_bodies:
  "encode_action test_codecs (SaveVote (1, 2)) [] =
     (Ok 28, [0,0,0,0, 0,0,0,0,0,0,0,1, 0,0,0,0,0,0,0,2] @ sum_codec [0,0,0,0, 0,0,0,0,0,0,0,1, 0,0,0,0,0,0,0,2])"
  "encode_action test_codecs (Append (1, 2) ''hello'') [] =
     (Ok 37, [0,0,0,1, 0,0,0,0,0,0,0,1, 0,0,0,0,0,0,0,2, 0,0,0,5, 104,101,108,108,111] @ sum_codec [0,0,0,1, 0,0,0,0,0,0,0,1, 0,0,0,0,0,0,0,2, 0,0,0,5, 104,101,108,108,111])"
  "encode_action test_codecs (Commit (1, 2)) [] =
     (Ok 28, [0,0,0,2, 0,0,0,0,0,0,0,1, 0,0,0,0,0,0,0,2] @ sum_codec [0,0,0,2, 0,0,0,0,0,0,0,1, 0,0,0,0,0,0,0,2])"
  "encode_action test_codecs (TruncateAfter (Some (1, 2))) [] =
     (Ok 29, [0,0,0,3, 1, 0,0,0,0,0,0,0,1, 0,0,0,0,0,0,0,2] @ sum_codec [0,0,0,3, 1, 0,0,0,0,0,0,0,1, 0,0,0,0,0,0,0,2])"
  "encode_action test_codecs (PurgeUpto (1, 2)) [] =
     (Ok 28, [0,0,0,4, 0,0,0,0,0,0,0,1, 0,0,0,0,0,0,0,2] @ sum_codec [0,0,0,4, 0,0,0,0,0,0,0,1, 0,0,0,0,0,0,0,2])"
  unfolding encode_action_runs
  by (simp_all add: enc_test_ids test_codecs_def enc_test_parts)
    (simp_all add: be_bytes_numeral)

lemma vector_encodes: "(a, bs) \<in> set test_vectors \<Longrightarrow> encode_action test_codecs a [] = (Ok (length bs), bs)"
  by (auto simp: test_vectors_def vector_bodies vector_sums)

lemma checkpoint_encodes:
  "checkpoint_vector =
     (let body = [0, 0, 0, 5] @ snd (encode_state test_codecs sample_state [])
      in body @ sum_codec body)"
  by (simp add: state_test_vector checkpoint_vector_def sum_codec_def crc_simps be_bytes_numeral)

section \<open>Properties\<close>

text \<open>C28: Round trip. Encoding a log state appends some bytes, returns their number, and decoding
  these bytes gives the state back and leaves whatever follows them unread, whenever the
  codecs of its parts do so.\<close>

theorem state_round_trip:
  assumes "raft_codecs C Ls Ps Vs Us"
    and "set_option (st_vote st) \<subseteq> Vs" and "set_option (st_last st) \<subseteq> Ls"
    and "set_option (st_committed st) \<subseteq> Ls" and "set_option (st_purged st) \<subseteq> Ls"
    and "set_option (st_user_data st) \<subseteq> Us"
  shows "\<exists>bs. encode_state C st w = (Ok (length bs), w @ bs)
     \<and> decode_state C (bs @ r) = (Ok st, r)"
  using raft_codecs.state_lawful [OF assms] unfolding lawful_for_def by auto

theorem state_round_trip_witness:
  "\<exists>bs. encode_state test_codecs sample_state [] = (Ok (length bs), [] @ bs)
     \<and> decode_state test_codecs (bs @ [7]) = (Ok sample_state, [7])"
  by (rule state_round_trip [OF test_cd.raft_codecs_axioms]) (simp_all add: sample_state_def)

text \<open>C27: Round trip. The same for an action: its four bytes of type, its payload and its checksum
  are read back to the same action, and the next record, whatever it is, is not touched.\<close>

theorem action_round_trip:
  assumes "raft_codecs C Ls Ps Vs Us"
    and "set1_raft_action a \<subseteq> Ls" and "set2_raft_action a \<subseteq> Ps" and "set3_raft_action a \<subseteq> Vs"
  shows "\<exists>bs. encode_action C a w = (Ok (length bs), w @ bs)
     \<and> decode_action C (bs @ r) = (Ok a, r)"
  using raft_codecs.action_lawful [OF assms] unfolding lawful_for_def by auto

theorem action_round_trip_witness:
  "\<exists>bs. encode_action test_codecs (Append (1, 2) ''hello'') [] = (Ok (length bs), [] @ bs)
     \<and> decode_action test_codecs (bs @ [0, 0]) = (Ok (Append (1, 2) ''hello''), [0, 0])"
  by (rule action_round_trip [OF test_cd.raft_codecs_axioms]) simp_all

text \<open>C30: Error behaviour. A record is accepted only after its checksum has been verified over
  exactly the bytes of its type and payload; a type outside the five action tags, the
  checkpoint tag 5 included, and a state version other than 1 are refused as \<open>InvalidData\<close>
  before anything else is read.\<close>

theorem decode_refuses:
  fixes C :: "('l, 'p, 'v, 'u) codecs"
  shows "(decode_action C r = (Ok a, r') \<longrightarrow>
        (\<exists>typ r1 r2. dec (cd_u32_be C) r = (Ok typ, r1) \<and> decode_payload C typ r1 = (Ok a, r2)
           \<and> verify_sum C ''Record::decode()'' (consumed r r2) r2 = (Ok (), r')))
     \<and> (dec (cd_u32_be C) r = (Ok tag, rest) \<and> tag \<notin> {0, 1, 2, 3, 4} \<longrightarrow>
        decode_action C r = (Err (unknown_type tag), rest))
     \<and> (dec (cd_u8 C) r = (Ok ver, rest) \<and> ver \<noteq> 1 \<longrightarrow>
        decode_state C r = (Err (bad_version ver), rest))"
proof -
  have "\<exists>typ r1 r2. dec (cd_u32_be C) r = (Ok typ, r1) \<and> decode_payload C typ r1 = (Ok a, r2)
      \<and> verify_sum C ''Record::decode()'' (consumed r r2) r2 = (Ok (), r')"
    if "decode_action C r = (Ok a, r')"
    using that by (auto simp: decode_action_def sbind_Ok_iff)
  moreover have "decode_action C r = (Err (unknown_type tag), rest)"
    if "dec (cd_u32_be C) r = (Ok tag, rest)" "tag \<notin> {0, 1, 2, 3, 4}"
    using that by (simp add: decode_action_def decode_payload_def)
  moreover have "decode_state C r = (Err (bad_version ver), rest)"
    if "dec (cd_u8 C) r = (Ok ver, rest)" "ver \<noteq> 1"
    using that by (simp add: decode_state_def)
  ultimately show ?thesis by blast
qed

theorem decode_refuses_witness:
  "decode_action test_codecs [0, 0, 0, 5, 1] = (Err (unknown_type 5), [1])"
proof -
  have "dec (cd_u32_be test_codecs) [0, 0, 0, 5, 1] = (Ok 5, [1])"
    by (simp add: test_codecs_def u32_codec_def fixed_codec_def be_val_def)
  moreover have "(5 :: u32) \<notin> {0, 1, 2, 3, 4}" by simp
  ultimately show ?thesis
    using decode_refuses [where C = test_codecs and r = "[0, 0, 0, 5, 1]" and tag = 5 and rest = "[1]"]
    by blast
qed

text \<open>C29: Functional. The format is the one on disk: with big-endian integers, length-prefixed
  strings and CRC-32, the encoder writes byte for byte the vectors of the unit tests of every
  record type, the decoder reads them back, and the checkpoint record is its type 5, the
  encoded state and their checksum.\<close>

theorem disk_format_of_tests:
  "list_all (\<lambda>(a, bs). encode_action test_codecs a [] = (Ok (length bs), bs)
       \<and> decode_action test_codecs bs = (Ok a, [])) test_vectors
   \<and> checkpoint_vector =
       (let body = [0, 0, 0, 5] @ snd (encode_state test_codecs sample_state [])
        in body @ sum_codec body)"
proof -
  have "decode_action test_codecs bs = (Ok a, [])" if "(a, bs) \<in> set test_vectors" for a bs
    using decodes_back [OF vector_encodes [OF that]] that by (auto simp: test_vectors_def)
  then show ?thesis using vector_encodes checkpoint_encodes by (auto simp: list_all_iff)
qed

end
