(* ===== verification/Dump.thy ===== *)
theory Dump imports Raft_Log Num_Format
begin

text \<open>
  Looking at a store from outside: the snapshot and its iterator
  (\<open>src/raft_log/dump_raft_log.rs\<close>, \<open>RaftLog::dump_data\<close>), the text dump
  (\<open>src/raft_log/dump_api.rs\<close>, \<open>src/dump_writer.rs\<close>), the \<open>Display\<close> implementations of
  actions, states and counters, and \<open>RaftLog::stat\<close> with its text
  (\<open>src/raft_log/stat.rs\<close>, \<open>src/raft_log/access_state.rs\<close>).

  What belongs to \<open>chunked_wal\<close> and \<open>codeq\<close> (the reader of closed chunks, chunk ids, segments,
  chunk statistics, the \<open>Display\<close> of a record) is passed in.
\<close>

section \<open>The snapshot and its iterator\<close>

record ('l, 'p, 'v, 'u, 'c, 'g, 'rd) dump_raft_log =
  dr_state :: "('l, 'v, 'u) raft_log_state"
  dr_logs :: "('l, 'c, 'g) log_data list"
  dr_cache :: "('l, 'p) btree_map"
  dr_reader :: 'rd
  dr_hit :: usize
  dr_miss :: usize

definition dump_data ::
  "('w \<Rightarrow> 'rd) \<Rightarrow> ('l, 'p, 'v, 'u, 'w, 'c, 'g, 'wc) raft_log
     \<Rightarrow> ('l, 'p, 'v, 'u, 'c, 'g, 'rd) dump_raft_log" where
  "dump_data closed_chunk_reader s =
     \<lparr>dr_state = sm_checkpoint (rl_sm s), dr_logs = map snd (sm_log (rl_sm s)),
      dr_cache = pc_cache (sm_cache (rl_sm s)), dr_reader = closed_chunk_reader (rl_wal s),
      dr_hit = 0, dr_miss = 0\<rparr>"

record ('l, 'p, 'v, 'u, 'c, 'g, 'rd) dump_iter =
  it_i :: nat
  it_data :: "('l, 'p, 'v, 'u, 'c, 'g, 'rd) dump_raft_log"

definition dump_iter_new ::
  "('l, 'p, 'v, 'u, 'c, 'g, 'rd) dump_raft_log \<Rightarrow> ('l, 'p, 'v, 'u, 'c, 'g, 'rd) dump_iter" where
  "dump_iter_new data = \<lparr>it_i = 0, it_data = data\<rparr>"

type_synonym ('l, 'p, 'v, 'u, 'c, 'g, 'rd) record_reader =
  "'rd \<Rightarrow> 'c \<Rightarrow> 'g \<Rightarrow> (('l, 'p, 'v, 'u) raft_record, io_error) outcome"

definition read_log_payload ::
  "('l, 'p, 'v, 'u, 'c, 'g, 'rd) record_reader
     \<Rightarrow> ('l, 'p, 'v, 'u, 'c, 'g, 'rd) dump_iter \<Rightarrow> ('l, 'c, 'g) log_data
     \<Rightarrow> ('p, io_error) outcome" where
  "read_log_payload read_record it data =
     and_then (read_record (dr_reader (it_data it)) (ld_chunk_id data) (ld_segment data))
       (\<lambda>rec. case rec of Action (Append _ payload) \<Rightarrow> Ok payload | _ \<Rightarrow> Panic)"

definition dump_next ::
  "('l, 'p, 'v, 'u, 'c, 'g, 'rd) record_reader \<Rightarrow> ('l, 'p, 'v, 'u, 'c, 'g, 'rd) dump_iter
     \<Rightarrow> ('l \<times> 'p, io_error) outcome option \<times> ('l, 'p, 'v, 'u, 'c, 'g, 'rd) dump_iter" where
  "dump_next read_record it =
     (if length (dr_logs (it_data it)) \<le> it_i it then (None, it)
      else
        let data = dr_logs (it_data it) ! it_i it;
            it1 = it\<lparr>it_i := it_i it + 1\<rparr>;
            d = it_data it1
        in case bt_get (dr_cache d) (ld_log_id data) of
             Some payload \<Rightarrow>
               (Some (Ok (ld_log_id data, payload)), it1\<lparr>it_data := d\<lparr>dr_hit := dr_hit d + 1\<rparr>\<rparr>)
           | None \<Rightarrow>
               (let it2 = it1\<lparr>it_data := d\<lparr>dr_miss := dr_miss d + 1\<rparr>\<rparr>
                in (Some (and_then (read_log_payload read_record it2 data)
                       (\<lambda>payload. Ok (ld_log_id data, payload))), it2)))"

text \<open>The iterator called until it returns \<open>None\<close>.\<close>

lemma dump_next_logs: "dr_logs (it_data (snd (dump_next rd it))) = dr_logs (it_data it)"
  by (simp add: dump_next_def Let_def split: option.split)

lemma dump_next_i: "fst (dump_next rd it) \<noteq> None \<Longrightarrow>
    it_i (snd (dump_next rd it)) = Suc (it_i it) \<and> it_i it < length (dr_logs (it_data it))"
  by (simp add: dump_next_def Let_def split: option.splits if_splits)

function dump_collect ::
  "('l, 'p, 'v, 'u, 'c, 'g, 'rd) record_reader \<Rightarrow> ('l, 'p, 'v, 'u, 'c, 'g, 'rd) dump_iter
     \<Rightarrow> ('l \<times> 'p, io_error) outcome list \<times> ('l, 'p, 'v, 'u, 'c, 'g, 'rd) dump_iter" where
  "dump_collect rd it =
     (case dump_next rd it of
        (None, it') \<Rightarrow> ([], it')
      | (Some r, it') \<Rightarrow> (case dump_collect rd it' of (rs, it'') \<Rightarrow> (r # rs, it'')))"
  by pat_completeness auto
termination
proof (relation "measure (\<lambda>(rd, it). length (dr_logs (it_data it)) - it_i it)", goal_cases)
  case (2 rd it r it' x)
  then have "dump_next rd it = (Some x, it')" by simp
  then show ?case using dump_next_logs [of rd it] dump_next_i [of rd it]
    by (simp add: diff_less_mono2)
qed simp

declare dump_collect.simps [simp del]

section \<open>The text dump\<close>

definition nl :: string where
  "nl = [CHR 0x0A]"

record ('c, 'g, 'r) text_api =
  show_chunk_id :: "'c \<Rightarrow> string"
  seg_offset :: "'g \<Rightarrow> u64"
  seg_end :: "'g \<Rightarrow> u64"
  show_seg_size :: "'g \<Rightarrow> string"
  dbg_record :: "'r \<Rightarrow> string"
  show_record :: "'r \<Rightarrow> string"
  show_io_error :: "io_error \<Rightarrow> string"

text \<open>\<open>put\<close> is the \<open>write_fmt\<close> of the writer, called once per \<open>writeln!\<close>.\<close>

definition write_ok ::
  "('c, 'g, 'r) text_api \<Rightarrow> (string \<Rightarrow> 'o \<Rightarrow> (unit, 'o) call) \<Rightarrow> 'c \<Rightarrow> u64 \<Rightarrow> 'g \<Rightarrow> string
     \<Rightarrow> 'o \<Rightarrow> (unit, 'o) call" where
  "write_ok X put chunk_id in_chunk_record_index seg rec w =
     sbind (if seg_offset X seg = 0 then put (show_chunk_id X chunk_id @ nl) w else (Ok (), w))
       (\<lambda>_ w. put
          (''  R-'' @ pad_dec 5 (unat in_chunk_record_index) @ '': [''
           @ format_pad9_u64 (seg_offset X seg) @ '', '' @ format_pad9_u64 (seg_end X seg) @ '') ''
           @ show_seg_size X seg @ '': '' @ rec @ nl) w)"

definition write_record_debug ::
  "('c, 'g, 'r) text_api \<Rightarrow> (string \<Rightarrow> 'o \<Rightarrow> (unit, 'o) call) \<Rightarrow> 'c \<Rightarrow> u64
     \<Rightarrow> ('g \<times> 'r, io_error) outcome \<Rightarrow> 'o \<Rightarrow> (unit, 'o) call" where
  "write_record_debug X put chunk_id in_chunk_record_index res w =
     (case res of
        Ok (seg, rec) \<Rightarrow> write_ok X put chunk_id in_chunk_record_index seg (dbg_record X rec) w
      | Err e \<Rightarrow> put (''Error: '' @ show_io_error X e @ nl) w
      | Panic \<Rightarrow> (Panic, w))"

definition write_record_display ::
  "('c, 'g, 'r) text_api \<Rightarrow> (string \<Rightarrow> 'o \<Rightarrow> (unit, 'o) call) \<Rightarrow> 'c \<Rightarrow> u64
     \<Rightarrow> ('g \<times> 'r, io_error) outcome \<Rightarrow> 'o \<Rightarrow> (unit, 'o) call" where
  "write_record_display X put chunk_id in_chunk_record_index res w =
     (case res of
        Ok (seg, rec) \<Rightarrow> write_ok X put chunk_id in_chunk_record_index seg (show_record X rec) w
      | Err e \<Rightarrow> put (''Error: '' @ show_io_error X e @ nl) w
      | Panic \<Rightarrow> (Panic, w))"

text \<open>
  \<open>write_with\<close> is the method of \<open>DumpApi\<close> that the two implementations forward to the WAL: it
  calls the given function on every stored record, with its chunk and its number in it.
\<close>

type_synonym ('c, 'g, 'r, 'o) write_with =
  "('c \<Rightarrow> u64 \<Rightarrow> ('g \<times> 'r, io_error) outcome \<Rightarrow> 'o \<Rightarrow> (unit, 'o) call) \<Rightarrow> 'o \<Rightarrow> (unit, 'o) call"

definition dump_write ::
  "('c, 'g, 'r) text_api \<Rightarrow> (string \<Rightarrow> 'o \<Rightarrow> (unit, 'o) call) \<Rightarrow> ('c, 'g, 'r, 'o) write_with
     \<Rightarrow> 'o \<Rightarrow> (unit, 'o) call" where
  "dump_write X put write_with w =
     sbind (put (''RaftLog:'' @ nl) w) (\<lambda>_ w. write_with (write_record_debug X put) w)"

definition dump_write_display ::
  "('c, 'g, 'r) text_api \<Rightarrow> (string \<Rightarrow> 'o \<Rightarrow> (unit, 'o) call) \<Rightarrow> ('c, 'g, 'r, 'o) write_with
     \<Rightarrow> 'o \<Rightarrow> (unit, 'o) call" where
  "dump_write_display X put write_with w =
     sbind (put (''RaftLog:'' @ nl) w) (\<lambda>_ w. write_with (write_record_display X put) w)"

definition put_string :: "string \<Rightarrow> string \<Rightarrow> (unit, string) call" where
  "put_string t w = (Ok (), w @ t)"

definition write_to_string ::
  "('c, 'g, 'r) text_api \<Rightarrow> ('c, 'g, 'r, string) write_with \<Rightarrow> (string, io_error) outcome" where
  "write_to_string X write_with =
     (case dump_write X put_string write_with [] of
        (Ok _, buf) \<Rightarrow> Ok buf
      | (Err e, buf) \<Rightarrow> Err e
      | (Panic, buf) \<Rightarrow> Panic)"

section \<open>What is dumped\<close>

text \<open>
  \<open>src/raft_log/dump.rs\<close>: \<open>Dump\<close> takes the lock of the directory and reads the files,
  \<open>RefDump\<close> goes through the WAL of a store. \<open>acquire_lock\<close>, \<open>dump_records\<close> and
  \<open>dump_loaded_records\<close> are those of \<open>ChunkedWal\<close>.
\<close>

record ('wc, 'k) dump =
  dp_config :: "'wc config"
  dp_wal_lock :: 'k

definition dump_new ::
  "('wc \<Rightarrow> ('k, io_error) outcome) \<Rightarrow> 'wc config \<Rightarrow> (('wc, 'k) dump, io_error) outcome" where
  "dump_new acquire_lock cfg =
     and_then (acquire_lock (cfg_wal cfg)) (\<lambda>wal_lock. Ok \<lparr>dp_config = cfg, dp_wal_lock = wal_lock\<rparr>)"

definition dump_write_with ::
  "('wc \<Rightarrow> 'k \<Rightarrow> ('c, 'g, 'r, 'o) write_with) \<Rightarrow> ('wc, 'k) dump \<Rightarrow> ('c, 'g, 'r, 'o) write_with" where
  "dump_write_with dump_records d = dump_records (cfg_wal (dp_config d)) (dp_wal_lock d)"

record ('l, 'p, 'v, 'u, 'w, 'c, 'g, 'wc) ref_dump =
  dumped_log :: "('l, 'p, 'v, 'u, 'w, 'c, 'g, 'wc) raft_log"

definition rl_dump ::
  "('l, 'p, 'v, 'u, 'w, 'c, 'g, 'wc) raft_log \<Rightarrow> ('l, 'p, 'v, 'u, 'w, 'c, 'g, 'wc) ref_dump" where
  "rl_dump s = \<lparr>dumped_log = s\<rparr>"

definition ref_dump_write_with ::
  "('w \<Rightarrow> ('ci, 'sg, 'r, 'o) write_with) \<Rightarrow> ('l, 'p, 'v, 'u, 'w, 'c, 'g, 'wc) ref_dump
     \<Rightarrow> ('ci, 'sg, 'r, 'o) write_with" where
  "ref_dump_write_with dump_loaded_records d = dump_loaded_records (rl_wal (dumped_log d))"

section \<open>Display\<close>

text \<open>\<open>display()\<close> of an option (crate \<open>display_more\<close>) is a parameter of these texts.\<close>

fun show_action ::
  "('v \<Rightarrow> string) \<Rightarrow> ('l \<Rightarrow> string) \<Rightarrow> ('p \<Rightarrow> string) \<Rightarrow> ('l option \<Rightarrow> string)
     \<Rightarrow> ('l, 'p, 'v) raft_action \<Rightarrow> string" where
  "show_action vote log_id payload opt (SaveVote v) = ''SaveVote('' @ vote v @ '')''"
| "show_action vote log_id payload opt (Append l p) =
     ''Append(log_id: '' @ log_id l @ '', payload: '' @ payload p @ '')''"
| "show_action vote log_id payload opt (Commit l) = ''Commit('' @ log_id l @ '')''"
| "show_action vote log_id payload opt (TruncateAfter ol) = ''TruncateAfter('' @ opt ol @ '')''"
| "show_action vote log_id payload opt (PurgeUpto l) = ''PurgeUpto('' @ log_id l @ '')''"

definition show_state ::
  "('v option \<Rightarrow> string) \<Rightarrow> ('l option \<Rightarrow> string) \<Rightarrow> ('u option \<Rightarrow> string)
     \<Rightarrow> ('l, 'v, 'u) raft_log_state \<Rightarrow> string" where
  "show_state vote log_id user st =
     ''RaftLogState(vote: '' @ vote (st_vote st) @ '', last: '' @ log_id (st_last st)
     @ '', committed: '' @ log_id (st_committed st) @ '', purged: '' @ log_id (st_purged st)
     @ '', user_data: '' @ user (st_user_data st) @ '')''"

definition show_access_stat :: "access_stat \<Rightarrow> string" where
  "show_access_stat a =
     ''AccessStat{cache(hit/miss)='' @ show_u64 (cache_hit a) @ ''/'' @ show_u64 (cache_miss a) @ ''}''"

section \<open>Statistics\<close>

record ('w, 'k, 'cs, 'fm) wal_stats =
  closed_chunk_stats :: "'w \<Rightarrow> 'cs list"
  open_chunk_stat :: "'w \<Rightarrow> 'k \<Rightarrow> 'cs"
  wal_flush_metrics :: "'w \<Rightarrow> 'fm"
  wal_on_disk_size :: "'w \<Rightarrow> u64"
  wal_wait_idle :: "'w \<Rightarrow> (unit, io_error) outcome"

record ('l, 'cs, 'fm) stat =
  closed_chunks :: "'cs list"
  open_chunk :: 'cs
  payload_cache_last_evictable :: "'l option"
  payload_cache_item_count :: u64
  payload_cache_max_item :: u64
  payload_cache_size :: u64
  payload_cache_capacity :: u64
  payload_cache_miss :: u64
  payload_cache_hit :: u64
  flush_metrics :: 'fm

definition rl_stat ::
  "('w, ('l, 'v, 'u) raft_log_state, 'cs, 'fm) wal_stats
     \<Rightarrow> ('l, 'p, 'v, 'u, 'w, 'c, 'g, 'wc) raft_log \<Rightarrow> ('l, 'cs, 'fm) stat" where
  "rl_stat S s =
     (let cache = sm_cache (rl_sm s)
      in \<lparr>closed_chunks = closed_chunk_stats S (rl_wal s),
          open_chunk = open_chunk_stat S (rl_wal s) (sm_checkpoint (rl_sm s)),
          payload_cache_last_evictable = pc_last_evictable cache,
          payload_cache_item_count = of_nat (item_count cache),
          payload_cache_max_item = pc_max_items cache,
          payload_cache_size = pc_size cache,
          payload_cache_capacity = pc_capacity cache,
          payload_cache_miss = cache_miss (rl_access s),
          payload_cache_hit = cache_hit (rl_access s),
          flush_metrics = wal_flush_metrics S (rl_wal s)\<rparr>)"

definition on_disk_size ::
  "('w, 'k, 'cs, 'fm) wal_stats \<Rightarrow> ('l, 'p, 'v, 'u, 'w, 'c, 'g, 'wc) raft_log \<Rightarrow> u64" where
  "on_disk_size S s = wal_on_disk_size S (rl_wal s)"

definition wait_worker_idle ::
  "('w, 'k, 'cs, 'fm) wal_stats \<Rightarrow> ('l, 'p, 'v, 'u, 'w, 'c, 'g, 'wc) raft_log
     \<Rightarrow> (unit, io_error) outcome" where
  "wait_worker_idle S s = wal_wait_idle S (rl_wal s)"

fun join_with :: "string \<Rightarrow> string list \<Rightarrow> string" where
  "join_with sep [] = []"
| "join_with sep [s] = s"
| "join_with sep (s # t # ss) = s @ sep @ join_with sep (t # ss)"

text \<open>\<open>alternate\<close> is the flag of \<open>{:#}\<close>, which breaks the text into lines.\<close>

definition show_stat ::
  "('cs \<Rightarrow> string) \<Rightarrow> ('l option \<Rightarrow> string) \<Rightarrow> bool \<Rightarrow> ('l, 'cs, 'fm) stat \<Rightarrow> string" where
  "show_stat chunk dbg_opt alternate st =
     (let lb = (if alternate then nl else []);
          idt = (if alternate then ''  '' else [])
      in ''Stat{'' @ lb @ '' closed_chunks: ['' @ lb @ idt
         @ join_with ('','' @ lb @ idt) (map chunk (closed_chunks st)) @ lb @ '' ],'' @ lb
         @ '' open_chunk: '' @ chunk (open_chunk st) @ '','' @ lb @ '' payload_cache:{''
         @ ''evictable: ..='' @ dbg_opt (payload_cache_last_evictable st)
         @ '',item/max: '' @ format_pad9_u64 (payload_cache_item_count st)
         @ '' / '' @ format_pad9_u64 (payload_cache_max_item st)
         @ '',size/cap: '' @ format_pad9_u64 (payload_cache_size st)
         @ '' / '' @ format_pad9_u64 (payload_cache_capacity st)
         @ '',miss: '' @ format_pad9_u64 (payload_cache_miss st)
         @ '',hit: '' @ format_pad9_u64 (payload_cache_hit st) @ ''}'' @ lb @ ''}'')"

end
