(* ===== verification/Dump_Properties.thy ===== *)
theory Dump_Properties imports Dump Sample_Runs
begin

text \<open>
  The properties of what a store shows of itself: the snapshot iterator lists the abstract
  log, the text dump has one line per record, and the counters count.
\<close>

section \<open>The snapshot\<close>

lemma dump_next_cached:
  "i < length (dr_logs d) \<Longrightarrow> dr_logs d ! i = ld \<Longrightarrow> bt_get (dr_cache d) (ld_log_id ld) = Some p \<Longrightarrow>
     dump_next rr \<lparr>it_i = i, it_data = d\<rparr> =
       (Some (Ok (ld_log_id ld, p)), \<lparr>it_i = Suc i, it_data = d\<lparr>dr_hit := dr_hit d + 1\<rparr>\<rparr>)"
  by (simp add: dump_next_def Let_def)

lemma dump_next_loaded:
  "i < length (dr_logs d) \<Longrightarrow> dr_logs d ! i = ld \<Longrightarrow> bt_get (dr_cache d) (ld_log_id ld) = None \<Longrightarrow>
     rr (dr_reader d) (ld_chunk_id ld) (ld_segment ld) = Ok (Action (Append l p)) \<Longrightarrow>
     dump_next rr \<lparr>it_i = i, it_data = d\<rparr> =
       (Some (Ok (ld_log_id ld, p)), \<lparr>it_i = Suc i, it_data = d\<lparr>dr_miss := dr_miss d + 1\<rparr>\<rparr>)"
  by (simp add: dump_next_def read_log_payload_def Let_def)

lemma dump_collect_from:
  assumes "rl_inv T W rec_at readable closed wal_ok s" and laws: "raft_wal W rec_at readable closed wal_ok"
    and reader: "\<And>c g. read_record reader c g = wal_load_record W (rl_wal s) c g"
    and data: "dr_logs d = map snd (sm_log (rl_sm s))" "dr_cache d = pc_cache (sm_cache (rl_sm s))"
      "dr_reader d = reader"
    and holds: "list_all2 (\<lambda>e x. entry_id e = fst x \<and> placed rec_at (rl_wal s) (snd e) (snd x))
        (drop i (sm_log (rl_sm s))) xs"
  shows "fst (dump_collect read_record \<lparr>it_i = i, it_data = d\<rparr>) = map Ok xs
    \<and> (let d' = it_data (snd (dump_collect read_record \<lparr>it_i = i, it_data = d\<rparr>))
       in dr_hit d' + dr_miss d' = dr_hit d + dr_miss d + of_nat (length xs))"
  using data holds
proof (induction xs arbitrary: i d)
  case Nil
  then have "length (sm_log (rl_sm s)) \<le> i" by simp
  with Nil.prems(1) show ?case
    by (simp add: dump_collect.simps [of read_record "\<lparr>it_i = i, it_data = d\<rparr>"] dump_next_def)
next
  case (Cons x xs)
  let ?log = "sm_log (rl_sm s)"
  have i: "i < length ?log"
  proof (rule ccontr)
    assume "\<not> i < length ?log"
    then have "drop i ?log = []" by simp
    with Cons.prems(4) show False by simp
  qed
  then have drop: "drop i ?log = ?log ! i # drop (Suc i) ?log" by (simp add: Cons_nth_drop_Suc)
  have id: "entry_id (?log ! i) = fst x" and at: "placed rec_at (rl_wal s) (snd (?log ! i)) (snd x)"
    and rest: "list_all2 (\<lambda>e x. entry_id e = fst x \<and> placed rec_at (rl_wal s) (snd e) (snd x))
        (drop (Suc i) ?log) xs"
    using Cons.prems(4) unfolding drop by auto
  let ?ld = "snd (?log ! i)"
  have ld: "i < length (dr_logs d)" "dr_logs d ! i = ?ld" using i Cons.prems(1) by simp_all
  have ok: "entry_ok rec_at readable closed (rl_removed s) (rl_wal s) (sm_cache (rl_sm s)) ?ld"
    using assms(1) i by (simp add: rl_inv_def)
  obtain d1 where nxt: "dump_next read_record \<lparr>it_i = i, it_data = d\<rparr> = (Some (Ok x), \<lparr>it_i = Suc i, it_data = d1\<rparr>)"
    and d1: "dr_logs d1 = dr_logs d" "dr_cache d1 = dr_cache d" "dr_reader d1 = dr_reader d"
    and count: "dr_hit d1 + dr_miss d1 = dr_hit d + dr_miss d + 1"
  proof (cases "cache_get (sm_cache (rl_sm s)) (ld_log_id ?ld)")
    case (Some p)
    then have "bt_get (dr_cache d) (ld_log_id ?ld) = Some p" using Cons.prems(2) by (simp add: cache_get_def)
    moreover have "p = snd x" using ok at Some by (auto simp: entry_ok_def placed_def)
    ultimately show ?thesis
      using that [of "d\<lparr>dr_hit := dr_hit d + 1\<rparr>"] dump_next_cached [OF ld, of p] id by simp
  next
    case None
    then have none: "bt_get (dr_cache d) (ld_log_id ?ld) = None" using Cons.prems(2) by (simp add: cache_get_def)
    have "chunked_wal W rec_at readable closed wal_ok" "wal_ok (rl_wal s)"
      "rec_at (rl_wal s) (ld_chunk_id ?ld) (ld_segment ?ld) = Some (Action (Append (ld_log_id ?ld) (snd x)))"
      "readable (rl_wal s) (ld_chunk_id ?ld)"
      using ok None assms(1) laws at by (auto simp: entry_ok_def rl_inv_def raft_wal_def placed_def)
    from chunked_wal.load_law [OF this] have "read_record (dr_reader d) (ld_chunk_id ?ld) (ld_segment ?ld) =
        Ok (Action (Append (ld_log_id ?ld) (snd x)))"
      using reader Cons.prems(3) by simp
    from that [of "d\<lparr>dr_miss := dr_miss d + 1\<rparr>"] dump_next_loaded [OF ld none, where rr = read_record, OF this] id
    show ?thesis by simp
  qed
  from Cons.IH [of d1 "Suc i"] Cons.prems(1-3) d1 rest
  have IH: "fst (dump_collect read_record \<lparr>it_i = Suc i, it_data = d1\<rparr>) = map Ok xs
    \<and> (let d' = it_data (snd (dump_collect read_record \<lparr>it_i = Suc i, it_data = d1\<rparr>))
       in dr_hit d' + dr_miss d' = dr_hit d1 + dr_miss d1 + of_nat (length xs))" by simp
  obtain rs it where "dump_collect read_record \<lparr>it_i = Suc i, it_data = d1\<rparr> = (rs, it)" by fastforce
  with IH nxt count show ?case
    by (simp add: dump_collect.simps [of read_record "\<lparr>it_i = i, it_data = d\<rparr>"] Let_def)
qed

text \<open>C31: Equivalence. The iterator over the snapshot of a store lists exactly the abstract log,
  payloads included, when the reader of the snapshot reads what the WAL reads, and its two
  counters add up to the number of entries listed.\<close>

theorem dump_lists_log:
  fixes read_record :: "('l::linorder, 'p, 'v::order, 'u, 'c::linorder, 'g, 'rd) record_reader"
  assumes "raft_wal W rec_at readable closed wal_ok"
    and "rl_inv T W rec_at readable closed wal_ok s" and "log_holds rec_at s es"
    and "\<And>c g. read_record (closed_chunk_reader (rl_wal s)) c g = wal_load_record W (rl_wal s) c g"
  shows "fst (dump_collect read_record (dump_iter_new (dump_data closed_chunk_reader s))) = map Ok es
    \<and> (let d = it_data (snd (dump_collect read_record (dump_iter_new (dump_data closed_chunk_reader s))))
       in dr_hit d + dr_miss d = of_nat (length es))"
  using dump_collect_from [where reader = "closed_chunk_reader (rl_wal s)" and read_record = read_record
      and d = "dump_data closed_chunk_reader s" and i = 0 and xs = es, OF assms(2,1,4)] assms(3)
  by (simp add: dump_iter_new_def dump_data_def log_holds_def)

theorem dump_lists_log_witness:
  "fst (dump_collect mem_load (dump_iter_new (dump_data (\<lambda>w. w) two_entries)))
     = [Ok ((1, 0), ''hi''), Ok ((1, 1), ''hello'')]"
  using dump_lists_log [OF tw.raft_wal_axioms two_entries_inv two_entries_holds,
      of mem_load "\<lambda>w. w"] by (simp add: test_api_def)

lemma dump_next_none: "fst (dump_next rd it) = None \<longleftrightarrow> length (dr_logs (it_data it)) \<le> it_i it"
  by (simp add: dump_next_def Let_def split: option.split)

lemma dump_next_moves:
  "it_i (snd (dump_next rd it)) = min (Suc (it_i it)) (max (it_i it) (length (dr_logs (it_data it))))"
  by (auto simp: dump_next_def Let_def split: option.split)

lemma dump_next_position:
  "let it = ((\<lambda>it. snd (dump_next rd it)) ^^ k) (dump_iter_new d)
   in it_i it = min k (length (dr_logs d)) \<and> dr_logs (it_data it) = dr_logs d"
  by (induction k) (auto simp: dump_iter_new_def dump_next_moves dump_next_logs Let_def)

text \<open>C32: Termination. Whatever the reader does, the iterator yields one item per entry of the
  snapshot, errors and panics included, and then \<open>None\<close>, and \<open>None\<close> again on every later
  call.\<close>

theorem dump_iterator_ends:
  "fst (dump_next rd (((\<lambda>it. snd (dump_next rd it)) ^^ k) (dump_iter_new d))) = None
     \<longleftrightarrow> length (dr_logs d) \<le> k"
  using dump_next_position [where rd = rd and k = k and d = d] by (auto simp: dump_next_none Let_def)

section \<open>The text\<close>

text \<open>The documented behaviour of the WAL's record iteration, over a list of records.\<close>

fun feed ::
  "('c \<times> u64 \<times> ('g \<times> 'r, io_error) outcome) list \<Rightarrow> ('c, 'g, 'r, 'o) write_with" where
  "feed [] f w = (Ok (), w)"
| "feed ((c, i, res) # rs) f w = sbind (f c i res w) (\<lambda>_ w. feed rs f w)"

definition record_line ::
  "('c, 'g, 'r) text_api \<Rightarrow> 'c \<times> u64 \<times> ('g \<times> 'r, io_error) outcome \<Rightarrow> string" where
  "record_line X i = snd (write_record_debug X put_string (fst i) (fst (snd i)) (snd (snd i)) [])"

lemma write_ok_string:
  "write_ok X put_string c i seg rec w = (Ok (), w @ snd (write_ok X put_string c i seg rec []))"
  by (simp add: write_ok_def put_string_def)

lemma write_record_string:
  "res \<noteq> Panic \<Longrightarrow> write_record_debug X put_string c i res w = (Ok (), w @ record_line X (c, i, res))"
  using write_ok_string [of X c i _ _ w]
  by (cases res) (auto simp: write_record_debug_def record_line_def put_string_def)

lemma feed_records:
  "list_all (\<lambda>i. snd (snd i) \<noteq> Panic) items \<Longrightarrow>
     feed items (write_record_debug X put_string) w = (Ok (), w @ concat (map (record_line X) items))"
  by (induction items arbitrary: w) (auto simp: write_record_string)


text \<open>For the reference WAL, whose segments are the numbers of the records: ten bytes each.\<close>

definition test_text :: "(nat, nat, test_record) text_api" where
  "test_text =
     \<lparr>show_chunk_id = (\<lambda>c. ''ChunkId('' @ format_grouped (of_nat c) 20 @ '')''),
      seg_offset = (\<lambda>g. of_nat (10 * g)), seg_end = (\<lambda>g. of_nat (10 * g + 10)),
      show_seg_size = (\<lambda>_. ''Size(10)''),
      dbg_record = (\<lambda>r. case r of Action (SaveVote v) \<Rightarrow> ''SaveVote('' @ dbg_pair v @ '')'' | _ \<Rightarrow> ''?''),
      show_record = (\<lambda>_. ''?''), show_io_error = err_msg\<rparr>"


text \<open>The answers of an idle WAL to \<open>stat\<close>, for the runs of the tests.\<close>

definition no_stats :: "('w, 'k, unit, unit) wal_stats" where
  "no_stats = \<lparr>closed_chunk_stats = (\<lambda>_. []), open_chunk_stat = (\<lambda>_ _. ()),
     wal_flush_metrics = (\<lambda>_. ()), wal_on_disk_size = (\<lambda>_. 0), wal_wait_idle = (\<lambda>_. Ok ())\<rparr>"

section \<open>The counters\<close>

lemma read_entry_counts:
  "cache_hit (rl_access (snd (read_entry W d s))) + cache_miss (rl_access (snd (read_entry W d s)))
     = cache_hit (rl_access s) + cache_miss (rl_access s) + 1"
  by (simp add: read_entry_def count_hit_def count_miss_def split: option.split)

lemma read_items_counts:
  "cache_hit (rl_access (snd (read_items W ds s))) + cache_miss (rl_access (snd (read_items W ds s)))
     = cache_hit (rl_access s) + cache_miss (rl_access s) + of_nat (length (fst (read_items W ds s)))"
proof (induction W ds s rule: read_items.induct)
  case (2 W i d es s)
  obtain r s1 where one: "read_entry W d s = (r, s1)" by fastforce
  with read_entry_counts [of W d s] have c1: "cache_hit (rl_access s1) + cache_miss (rl_access s1)
      = cache_hit (rl_access s) + cache_miss (rl_access s) + 1" by simp
  show ?case
    using 2 [OF one [symmetric]] one c1
    by (cases r) (auto split: prod.splits simp: algebra_simps)
qed simp

text \<open>Every entry a read looks at is counted once, as a hit or as a miss, whatever
  the read returns for it; a read of a range that starts past its end panics and counts
  nothing.\<close>

theorem read_counts_every_entry:
  "case rl_read W lo hi s of
     (Ok items, s') \<Rightarrow> lo \<le> hi
       \<and> cache_hit (rl_access s') + cache_miss (rl_access s')
          = cache_hit (rl_access s) + cache_miss (rl_access s) + of_nat (length items)
   | (Err e, s') \<Rightarrow> False
   | (Panic, s') \<Rightarrow> hi < lo \<and> s' = s"
proof -
  obtain items s' where run: "read_items W (filter (\<lambda>e. lo \<le> fst e \<and> fst e < hi) (sm_log (rl_sm s))) s
      = (items, s')" by fastforce
  with read_items_counts [of W "filter (\<lambda>e. lo \<le> fst e \<and> fst e < hi) (sm_log (rl_sm s))" s]
  show ?thesis by (simp add: rl_read_def bt_range_def run not_less)
qed

end
