(* ===== verification/Abstract_Store.thy ===== *)
theory Abstract_Store imports Sample_Runs
begin

text \<open>
  What a client may expect of the store: an abstract store with a log state and a list of
  entries, and nothing else (no WAL, no chunks, no index, no cache). Every operation of the
  real store is labelled by \<open>store_op\<close>; \<open>run_op\<close> runs it on the model of the code and \<open>spec_op\<close>
  on the abstract store. When no call on the WAL fails (locale \<open>raft_wal_up\<close>), both give the
  same answers, rejections included, and end in related states, whatever the flush worker and
  its callback do in between.
\<close>

section \<open>The abstract store\<close>

record ('l, 'p, 'v, 'u) abs_store =
  ab_state :: "('l, 'v, 'u) raft_log_state"
  ab_log :: "('l \<times> 'p) list"

type_synonym ('l, 'p, 's) answer = "(('l \<times> 'p) list, 's) call"

definition abs_write ::
  "('l::linorder, 'p, 'v::order) raft_types \<Rightarrow> ('l, 'p, 'v, 'u) raft_record
     \<Rightarrow> ('l, 'p, 'v, 'u) abs_store \<Rightarrow> ('l, 'p, ('l, 'p, 'v, 'u) abs_store) answer" where
  "abs_write T rec a =
     sbind (checked T (state_check T (ab_state a) rec) a) (\<lambda>_ a.
       (Ok [], \<lparr>ab_state = state_effect (ab_state a) rec, ab_log = log_effect rec (ab_log a)\<rparr>))"

fun abs_append ::
  "('l::linorder, 'p, 'v::order) raft_types \<Rightarrow> ('l \<times> 'p) list
     \<Rightarrow> ('l, 'p, 'v, 'u) abs_store \<Rightarrow> ('l, 'p, ('l, 'p, 'v, 'u) abs_store) answer" where
  "abs_append T [] a = (Ok [], a)"
| "abs_append T ((l, p) # new) a =
     sbind (abs_write T (Action (Append l p)) a) (\<lambda>_ a. abs_append T new a)"

definition abs_target ::
  "('l, 'p, 'v) raft_types \<Rightarrow> u64 \<Rightarrow> ('l, 'p, 'v, 'u) abs_store
     \<Rightarrow> ('l option, ('l, 'v) state_error) outcome" where
  "abs_target T i a =
     (if i = next_log_index T (st_purged (ab_state a)) then Ok (st_purged (ab_state a))
      else if i = 0 then Err (LogIndexNotFound 0)
      else (case find (\<lambda>x. log_index T (fst x) = i - 1) (ab_log a) of
              None \<Rightarrow> Err (LogIndexNotFound (i - 1))
            | Some x \<Rightarrow> Ok (Some (fst x))))"

definition abs_declared ::
  "('l::linorder, 'p, 'v) raft_types \<Rightarrow> ('l, 'v, 'u) raft_log_state
     \<Rightarrow> ('l, 'p, 'v, 'u) abs_store \<Rightarrow> (unit, ('l, 'v) state_error) outcome" where
  "abs_declared T st a =
     (case ab_log a of
        [] \<Rightarrow> Ok ()
      | x # _ \<Rightarrow>
          let first = fst x; lst = fst (last (ab_log a))
          in if log_index T first = next_log_index T (st_purged st) \<and> st_purged st < Some first
                \<and> Some lst = st_last st then Ok ()
             else Err (CheckpointLogMismatch first lst (st_purged st) (st_last st)))"

section \<open>The operations\<close>

datatype ('l, 'p, 'v, 'u, 'w, 'cb) store_op =
    DoVote 'v
  | DoUserData "'u option"
  | DoAppend "('l \<times> 'p) list"
  | DoTruncate u64
  | DoPurge 'l
  | DoCommit 'l
  | DoUpdate "('l, 'v, 'u) raft_log_state"
  | DoFlush bool "'cb option"
  | DoRead u64 u64
  | DoDrain
  | DoWorker 'w
  | DoPersisted "('l, 'v, 'u) raft_log_state option"

fun spec_op ::
  "('l::linorder, 'p, 'v::order) raft_types \<Rightarrow> ('l, 'p, 'v, 'u, 'w, 'cb) store_op
     \<Rightarrow> ('l, 'p, 'v, 'u) abs_store \<Rightarrow> ('l, 'p, ('l, 'p, 'v, 'u) abs_store) answer" where
  "spec_op T (DoVote v) a = abs_write T (Action (SaveVote v)) a"
| "spec_op T (DoUserData u) a = abs_write T (Checkpoint ((ab_state a)\<lparr>st_user_data := u\<rparr>)) a"
| "spec_op T (DoAppend new) a = abs_append T new a"
| "spec_op T (DoTruncate i) a =
     sbind (checked T (abs_target T i a) a) (\<lambda>keep. abs_write T (Action (TruncateAfter keep)))"
| "spec_op T (DoPurge l) a =
     (if log_index T l < next_log_index T (st_purged (ab_state a)) then (Ok [], a)
      else abs_write T (Action (PurgeUpto l)) a)"
| "spec_op T (DoCommit l) a = abs_write T (Action (Commit l)) a"
| "spec_op T (DoUpdate st) a =
     sbind (checked T (abs_declared T st a) a) (\<lambda>_. abs_write T (Checkpoint st))"
| "spec_op T (DoRead lo hi) a =
     (if hi < lo then (Panic, a)
      else (Ok (filter (\<lambda>x. lo \<le> log_index T (fst x) \<and> log_index T (fst x) < hi) (ab_log a)), a))"
| "spec_op T op a = (Ok [], a)"

text \<open>A call whose returned segment is not looked at.\<close>

definition quiet :: "('a, 's) call \<Rightarrow> ('b list, 's) call" where
  "quiet m = sbind m (\<lambda>_ s. (Ok [], s))"

fun run_op ::
  "('l::linorder, 'p, 'v::order) raft_types \<Rightarrow> ('l, 'p, 'v, 'u, 'w, 'c, 'g, 'cb) raft_wal
     \<Rightarrow> ('l, 'p, 'v, 'u, 'w, 'cb) store_op
     \<Rightarrow> ('l, 'p, 'v, 'u, 'w, 'c, 'g, 'wc) raft_log
     \<Rightarrow> ('l, 'p, ('l, 'p, 'v, 'u, 'w, 'c, 'g, 'wc) raft_log) answer" where
  "run_op T W (DoVote v) s = quiet (save_vote T W v s)"
| "run_op T W (DoUserData u) s = quiet (save_user_data T W u s)"
| "run_op T W (DoAppend new) s = quiet (rl_append T W new s)"
| "run_op T W (DoTruncate i) s = quiet (rl_truncate T W i s)"
| "run_op T W (DoPurge l) s = quiet (rl_purge T W l s)"
| "run_op T W (DoCommit l) s = quiet (rl_commit T W l s)"
| "run_op T W (DoUpdate st) s = quiet (update_state T W st s)"
| "run_op T W (DoFlush sync cb) s = quiet (rl_flush W sync cb s)"
| "run_op T W (DoRead lo hi) s = sbind (rl_read W lo hi s) (\<lambda>items s. (collect_results items, s))"
| "run_op T W DoDrain s = (Ok [], drain_cache_evictable T s)"
| "run_op T W (DoWorker w) s = (Ok [], s\<lparr>rl_wal := w\<rparr>)"
| "run_op T W (DoPersisted ck) s = (Ok [], worker_callback ck s)"

text \<open>What an operation must satisfy: the conditions of \<open>rl_step\<close>.\<close>

fun op_fits ::
  "('l::linorder, 'p, 'v) raft_types \<Rightarrow> ('l, 'p, 'v, 'u, 'w, 'c, 'g, 'cb) raft_wal
     \<Rightarrow> ('w \<Rightarrow> 'c \<Rightarrow> 'g \<Rightarrow> ('l, 'p, 'v, 'u) raft_record option) \<Rightarrow> ('w \<Rightarrow> 'c \<Rightarrow> bool)
     \<Rightarrow> ('w \<Rightarrow> ('c \<times> ('l, 'v, 'u) raft_log_state) list) \<Rightarrow> ('w \<Rightarrow> bool)
     \<Rightarrow> ('l, 'p, 'v, 'u, 'w, 'c, 'g, 'wc) raft_log
     \<Rightarrow> ('l, 'p, 'v, 'u, 'w, 'cb) store_op \<Rightarrow> bool" where
  "op_fits T W rec_at readable closed wal_ok s (DoAppend new) =
     list_all (\<lambda>x. appendable T s (fst x)) new"
| "op_fits T W rec_at readable closed wal_ok s (DoPurge l) = purgeable T s l"
| "op_fits T W rec_at readable closed wal_ok s (DoUpdate st) = declarable T s st"
| "op_fits T W rec_at readable closed wal_ok s (DoWorker w) =
     (wal_ok w \<and> wal_extends rec_at readable {} (rl_wal s) w
      \<and> closed w = closed (rl_wal s) \<and> wal_open_chunk_id W w = wal_open_chunk_id W (rl_wal s))"
| "op_fits T W rec_at readable closed wal_ok s (DoPersisted ck) = persisted_upto readable s ck"
| "op_fits T W rec_at readable closed wal_ok s op = True"

fun run_all :: "('o \<Rightarrow> 's \<Rightarrow> 'r \<times> 's) \<Rightarrow> 'o list \<Rightarrow> 's \<Rightarrow> 'r list \<times> 's" where
  "run_all f [] s = ([], s)"
| "run_all f (i # is) s =
     (case f i s of (r, s1) \<Rightarrow> (case run_all f is s1 of (rs, s2) \<Rightarrow> (r # rs, s2)))"

section \<open>Agreement of two calls\<close>

definition agree :: "('s \<Rightarrow> 't \<Rightarrow> bool) \<Rightarrow> 'r \<times> 's \<Rightarrow> 'r \<times> 't \<Rightarrow> bool" where
  "agree R m n \<longleftrightarrow> fst m = fst n \<and> R (snd m) (snd n)"

lemma agree_pair [simp]: "agree R (r, s) (q, t) \<longleftrightarrow> r = q \<and> R s t"
  by (simp add: agree_def)

lemma agree_sbind:
  assumes "agree R m n"
    and "\<And>a s t. m = (Ok a, s) \<Longrightarrow> n = (Ok a, t) \<Longrightarrow> R s t \<Longrightarrow> agree R (f a s) (g a t)"
  shows "agree R (sbind m f) (sbind n g)"
  using assms by (cases "(m, f)" rule: sbind.cases; cases n) auto

lemma agree_checked:
  assumes "R s t" and "\<And>a. r = Ok a \<Longrightarrow> agree R (f a s) (g a t)"
  shows "agree R (sbind (checked T r s) f) (sbind (checked T r t) g)"
  using assms by (cases r) (auto simp: checked_def)

lemma agree_quiet:
  assumes "agree R (quiet m) n"
    and "\<And>a s t. m = (Ok a, s) \<Longrightarrow> R s t \<Longrightarrow> agree R (quiet (f s)) (g t)"
  shows "agree R (quiet (sbind m (\<lambda>_. f))) (sbind n (\<lambda>_. g))"
  using assms by (rule_tac sbind_cases [of m]; cases m; cases "fst m"; cases n) (auto simp: quiet_def)

lemma quiet_bind: "quiet (sbind m f) = sbind m (\<lambda>a s. quiet (f a s))"
  by (cases "(m, f)" rule: sbind.cases) (auto simp: quiet_def)

lemma agree_run_all:
  assumes "\<And>s t i. R s t \<Longrightarrow> fits s i \<Longrightarrow> agree R (f i s) (g i t)"
    and "R s t" and "along (\<lambda>s i. snd (f i s)) fits s is"
  shows "agree R (run_all f is s) (run_all g is t)"
  using assms(2,3)
proof (induction "is" arbitrary: s t)
  case (Cons i "is")
  obtain r s1 where f: "f i s = (r, s1)" by fastforce
  obtain q t1 where g: "g i t = (q, t1)" by fastforce
  have "r = q" "R s1 t1" using assms(1) [of s t i] Cons.prems f g by simp_all
  then show ?case using Cons.IH [of s1 t1] Cons.prems f g
    by (auto simp: agree_def split: prod.split)
qed simp

section \<open>The two stores, related\<close>

definition store_rel ::
  "('l::linorder, 'p, 'v) raft_types \<Rightarrow> ('l, 'p, 'v, 'u, 'w, 'c::linorder, 'g, 'cb) raft_wal
     \<Rightarrow> ('w \<Rightarrow> 'c \<Rightarrow> 'g \<Rightarrow> ('l, 'p, 'v, 'u) raft_record option) \<Rightarrow> ('w \<Rightarrow> 'c \<Rightarrow> bool)
     \<Rightarrow> ('w \<Rightarrow> ('c \<times> ('l, 'v, 'u) raft_log_state) list) \<Rightarrow> ('w \<Rightarrow> bool)
     \<Rightarrow> ('l, 'p, 'v, 'u, 'w, 'c, 'g, 'wc) raft_log \<Rightarrow> ('l, 'p, 'v, 'u) abs_store \<Rightarrow> bool" where
  "store_rel T W rec_at readable closed wal_ok s a \<longleftrightarrow>
     rl_inv T W rec_at readable closed wal_ok s
     \<and> log_state s = ab_state a \<and> log_holds rec_at s (ab_log a)"

lemma find_entry:
  assumes "list_all2 (\<lambda>e x. entry_id e = fst x \<and> Q e x) m es"
    and "\<forall>e \<in> set m. fst e = log_index T (entry_id e)"
  shows "map_option ld_log_id (bt_get m i) = map_option fst (find (\<lambda>x. log_index T (fst x) = i) es)"
  using assms by (induction rule: list_all2_induct) (auto simp: bt_get_def)

lemma target_agrees:
  assumes "sm_inv T (rl_sm s)" and "log_state s = ab_state a" and "log_holds rec_at s (ab_log a)"
  shows "truncate_target T i s = abs_target T i a"
proof -
  let ?found = "find (\<lambda>x. log_index T (fst x) = i - 1) (ab_log a)"
  have "\<forall>e \<in> set (sm_log (rl_sm s)). fst e = log_index T (entry_id e)"
    using log_wf_key [of T "sm_log (rl_sm s)"] assms(1) by (simp add: sm_inv_def)
  with assms(3) have "map_option ld_log_id (bt_get (sm_log (rl_sm s)) (i - 1)) = map_option fst ?found"
    unfolding log_holds_def by (rule find_entry)
  then show ?thesis
    using assms(2) by (cases "bt_get (sm_log (rl_sm s)) (i - 1)"; cases ?found)
      (simp_all add: truncate_target_def abs_target_def get_log_id_def)
qed

lemma declared_agrees:
  assumes "log_holds rec_at s (ab_log a)"
  shows "check_checkpoint T (rl_sm s) st = abs_declared T st a"
proof (cases "ab_log a")
  case Nil
  then have "sm_log (rl_sm s) = []" using assms by (simp add: log_holds_def)
  with Nil show ?thesis by (simp add: check_checkpoint_def abs_declared_def bt_first_def)
next
  case (Cons x es)
  note ids = holds_fst [OF assms]
  from Cons ids obtain e m where m: "sm_log (rl_sm s) = e # m" "fst x = entry_id e"
    by (cases "sm_log (rl_sm s)") auto
  have "fst (last (ab_log a)) = entry_id (last (sm_log (rl_sm s)))"
    using ids Cons m by (metis (mono_tags, lifting) last_map list.distinct(1))
  with Cons m show ?thesis
    by (simp add: check_checkpoint_def abs_declared_def bt_first_def bt_last_def Let_def case_prod_beta)
qed

section \<open>A WAL whose calls do not fail\<close>

locale raft_wal_up = raft_wal W rec_at readable closed wal_ok
  for W :: "('w, 'c::linorder, 'g, 'cb, ('l::linorder, 'p, 'v::order, 'u) raft_record,
      ('l, 'v, 'u) raft_log_state) wal_api"
    and rec_at :: "'w \<Rightarrow> 'c \<Rightarrow> 'g \<Rightarrow> ('l, 'p, 'v, 'u) raft_record option"
    and readable :: "'w \<Rightarrow> 'c \<Rightarrow> bool"
    and closed :: "'w \<Rightarrow> ('c \<times> ('l, 'v, 'u) raft_log_state) list"
    and wal_ok :: "'w \<Rightarrow> bool" +
  assumes append_up: "wal_ok w \<Longrightarrow> is_ok (fst (wal_append W w rec))"
    and close_up: "wal_ok w \<Longrightarrow> is_ok (fst (wal_try_close W w k))"
    and pending_up: "wal_ok w \<Longrightarrow> is_ok (fst (wal_send_pending W w sync cb))"
    and remove_up: "wal_ok w \<Longrightarrow> is_ok (fst (wal_send_remove W w ids))"
begin

abbreviation rel where
  "rel T \<equiv> store_rel T W rec_at readable closed wal_ok"

lemma write_agrees:
  assumes rel: "rel T s a" and fits: "write_fits T s rec"
  shows "agree (rel T) (quiet (append_and_apply T W rec s)) (abs_write T rec a)"
proof -
  have inv: "rl_inv T W rec_at readable closed wal_ok s" and st: "log_state s = ab_state a"
    and holds: "log_holds rec_at s (ab_log a)" using rel by (simp_all add: store_rel_def)
  have ok: "wal_ok (rl_wal s)" using inv by (simp add: rl_inv_def)
  obtain r s' where run: "append_and_apply T W rec s = (r, s')" by fastforce
  note w = write_inv [OF inv fits run]
  have same: "state_check T (ab_state a) rec = sm_check T (rl_sm s) rec"
    by (simp add: sm_check_def st [symmetric] log_state_def)
  have accepted: ?thesis if "sm_check T (rl_sm s) rec = Ok ()" and r: "r = Ok g" for g
    using that w(1) w(2) [OF r holds] w(5) [OF r] run same st
    by (simp add: abs_write_def checked_def quiet_def store_rel_def)
  show ?thesis
  proof (cases rule: write_on_wal [of T s rec W])
    case (rejected e)
    then show ?thesis using rel same by (simp add: abs_write_def checked_def quiet_def)
  next
    case (not_appended r w)
    then show ?thesis using append_up [OF ok, of rec] by simp
  next
    case (not_closed w s2 r w2)
    have "wal_ok w" using append_law [OF ok not_closed(2)] by simp
    then show ?thesis using close_up [of w "sm_checkpoint (rl_sm s2)"] not_closed(4,5) by simp
  next
    case (written w s2 b w2 s3)
    then show ?thesis using accepted run by simp
  qed
qed

lemma append_agrees:
  assumes "rel T s a" and "list_all (\<lambda>x. appendable T s (fst x)) new"
  shows "agree (rel T) (quiet (rl_append T W new s)) (abs_append T new a)"
  using assms
proof (induction new arbitrary: s a)
  case Nil
  then show ?case by (simp add: quiet_def)
next
  case (Cons x new)
  obtain l p where x: "x = (l, p)" by (cases x)
  let ?rec = "Action (Append l p) :: ('l, 'p, 'v, 'u) raft_record"
  have fits: "write_fits T s ?rec"
    using Cons.prems(2) x by (simp add: write_fits_def appendable_def)
  have inv: "rl_inv T W rec_at readable closed wal_ok s" using Cons.prems(1) by (simp add: store_rel_def)
  have "agree (rel T) (quiet (rl_append T W new s1)) (abs_append T new a1)"
    if run: "append_and_apply T W ?rec s = (Ok g, s1)" and rel: "rel T s1 a1" for g s1 a1
  proof (rule Cons.IH [OF rel])
    from write_inv(4) [OF inv fits run]
    show "list_all (\<lambda>x. appendable T s1 (fst x)) new"
      using Cons.prems(2) by (simp add: appendable_def evictable_def)
  qed
  with write_agrees [OF Cons.prems(1) fits]
  have "agree (rel T) (quiet (sbind (append_and_apply T W ?rec s) (\<lambda>_. rl_append T W new)))
      (sbind (abs_write T ?rec a) (\<lambda>_. abs_append T new))"
    by (rule agree_quiet)
  then show ?case by (simp add: x)
qed

lemma state_rel: "rel T s a \<Longrightarrow> sm_inv T (rl_sm s) \<and> log_state s = ab_state a \<and> log_holds rec_at s (ab_log a)"
  by (simp add: store_rel_def rl_inv_def)

lemma truncate_agrees:
  assumes rel: "rel T s a"
  shows "agree (rel T) (quiet (rl_truncate T W i s)) (spec_op T (DoTruncate i) a)"
proof -
  have "truncate_target T i s = abs_target T i a"
    using state_rel [OF rel] by (intro target_agrees) auto
  moreover have "write_fits T s (Action (TruncateAfter keep))" if "truncate_target T i s = Ok keep" for keep
    using truncate_target_fits [OF _ that] state_rel [OF rel] by (simp add: write_fits_def)
  ultimately show ?thesis
    by (simp add: rl_truncate_def quiet_bind agree_checked rel write_agrees)
qed

lemma update_agrees:
  assumes rel: "rel T s a" and fits: "declarable T s st"
  shows "agree (rel T) (quiet (update_state T W st s)) (spec_op T (DoUpdate st) a)"
proof -
  have "check_checkpoint T (rl_sm s) st = abs_declared T st a"
    using state_rel [OF rel] by (intro declared_agrees) auto
  moreover have "write_fits T s (Checkpoint st)" if "check_checkpoint T (rl_sm s) st = Ok u" for u
    using fits that by (simp add: write_fits_def declarable_def)
  ultimately show ?thesis
    by (simp add: update_state_def quiet_bind agree_checked rel write_agrees)
qed

lemma purge_agrees:
  assumes rel: "rel T s a" and fits: "purgeable T s l"
  shows "agree (rel T) (quiet (rl_purge T W l s)) (spec_op T (DoPurge l) a)"
proof (cases "log_index T l < next_log_index T (st_purged (ab_state a))")
  case True
  then show ?thesis using rel by (simp add: rl_purge_def quiet_def store_rel_def)
next
  case False
  let ?rec = "Action (PurgeUpto l) :: ('l, 'p, 'v, 'u) raft_record"
  have wf: "write_fits T s ?rec"
    using fits False state_rel [OF rel] by (simp add: write_fits_def purgeable_def)
  obtain r s1 where run: "append_and_apply T W ?rec s = (r, s1)" by fastforce
  have buffered: "rel T (buffer_removable_chunks W s1) a1" if "rel T s1 a1" for a1
    using that inv_buffer(1) [of T s1] inv_buffer(2) [of T s1 "ab_log a1"] inv_buffer(3) [of T s1]
    by (simp add: store_rel_def log_state_def)
  have "agree (rel T)
      (quiet (sbind (append_and_apply T W ?rec s) (\<lambda>res s. (Ok res, buffer_removable_chunks W s))))
      (abs_write T ?rec a)"
    using write_agrees [OF rel wf] run buffered
    by (cases r; cases "abs_write T ?rec a") (auto simp: quiet_def)
  with False state_rel [OF rel] show ?thesis by (simp add: rl_purge_def)
qed

lemma flush_agrees:
  assumes rel: "rel T s a"
  shows "agree (rel T) (quiet (rl_flush W sync cb s)) (spec_op T (DoFlush sync cb) a)"
proof -
  obtain r s' where run: "rl_flush W sync cb s = (r, s')" by fastforce
  have ok: "wal_ok (rl_wal s)" using rel by (simp add: store_rel_def rl_inv_def)
  obtain r1 w1 where send: "wal_send_pending W (rl_wal s) sync cb = (r1, w1)" by fastforce
  have "wal_ok w1" using send_pending_law [OF ok send] by blast
  then have "r = Ok () \<and> rl_sm s' = rl_sm s"
    using run send pending_up [OF ok, of sync cb] remove_up [of w1 "rl_removed s"]
    by (cases r1) (auto simp: rl_flush_def on_wal_def Let_def is_ok_conv split: if_splits)
  then show ?thesis
    using rel run flush_inv_holds [of T s "ab_log a" sync cb r s']
    by (simp add: quiet_def store_rel_def log_state_def)
qed

lemma read_agrees:
  assumes rel: "rel T s a"
  shows "agree (rel T) (run_op T W (DoRead lo hi) s) (spec_op T (DoRead lo hi) a)"
proof (cases "lo \<le> hi")
  case True
  have inv: "rl_inv T W rec_at readable closed wal_ok s" and holds: "log_holds rec_at s (ab_log a)"
    using rel by (simp_all add: store_rel_def)
  obtain b where "rl_read W lo hi s =
      (Ok (map Ok (filter (\<lambda>x. lo \<le> log_index T (fst x) \<and> log_index T (fst x) < hi) (ab_log a))),
       s\<lparr>rl_access := b\<rparr>)" by (rule read_ok [OF inv holds True])
  moreover have "rel T (s\<lparr>rl_access := b\<rparr>) a"
    using rel by (simp add: store_rel_def inv_access log_state_def log_holds_def)
  ultimately show ?thesis using True by (simp add: not_less [symmetric])
next
  case False
  then show ?thesis using rel by (simp add: rl_read_def bt_range_def not_le)
qed

lemma quiet_agrees:
  assumes rel: "rel T s a" and inv: "rl_inv T W rec_at readable closed wal_ok s'"
    and "rl_sm s' = (rl_sm s)\<lparr>sm_cache := cache\<rparr>" and "rl_wal s' = rl_wal s"
  shows "rel T s' a"
  using assms by (simp add: store_rel_def log_state_def log_holds_def)

text \<open>Each operation, and runs of operations.\<close>

lemma op_agrees:
  assumes rel: "rel T s a" and fits: "op_fits T W rec_at readable closed wal_ok s op"
  shows "agree (rel T) (run_op T W op s) (spec_op T op a)"
proof (cases op)
  case (DoVote v)
  then show ?thesis using write_agrees [OF rel] by (simp add: save_vote_def write_fits_def)
next
  case (DoUserData u)
  have "write_fits T s (Checkpoint ((ab_state a)\<lparr>st_user_data := u\<rparr>))"
    using state_rel [OF rel]
    by (auto simp: write_fits_def checkpoint_point_def log_state_def sm_inv_def)
  with DoUserData show ?thesis
    using write_agrees [OF rel] state_rel [OF rel]
    by (simp add: save_user_data_def sm_checkpoint_def log_state_def)
next
  case (DoCommit l)
  then show ?thesis using write_agrees [OF rel] by (simp add: rl_commit_def write_fits_def)
next
  case DoDrain
  have "rl_inv T W rec_at readable closed wal_ok (drain_cache_evictable T s)"
    using drain_follows [of T s "ab_log a"] rel by (simp add: store_rel_def follows_def)
  then have "rel T (drain_cache_evictable T s) a"
    by (rule quiet_agrees [OF rel]) (simp_all add: drain_cache_evictable_def)
  with DoDrain show ?thesis by simp
next
  case (DoPersisted ck)
  have "rl_inv T W rec_at readable closed wal_ok (worker_callback ck s)"
    using persisted_follows [of T s "ab_log a" ck] fits DoPersisted rel
    by (simp add: store_rel_def follows_def)
  then have "rel T (worker_callback ck s) a"
    by (rule quiet_agrees [OF rel]) (simp_all add: worker_callback_def)
  with DoPersisted show ?thesis by simp
next
  case (DoWorker w)
  then have law: "wal_ok w" "wal_extends rec_at readable {} (rl_wal s) w"
    "closed w = closed (rl_wal s)" "wal_open_chunk_id W w = wal_open_chunk_id W (rl_wal s)"
    using fits by simp_all
  then show ?thesis
    using DoWorker rel inv_wal_same [of T s w] holds_wal [of s "ab_log a" "{}" w]
    by (simp add: store_rel_def log_state_def)
qed (use fits append_agrees [OF rel] truncate_agrees [OF rel] purge_agrees [OF rel]
    update_agrees [OF rel] flush_agrees [OF rel] read_agrees [OF rel] in simp_all)

lemma run_agrees:
  assumes "rel T s a"
    and "along (\<lambda>s op. snd (run_op T W op s)) (op_fits T W rec_at readable closed wal_ok) s ops"
  shows "agree (rel T) (run_all (run_op T W) ops s) (run_all (spec_op T) ops a)"
  by (rule agree_run_all [OF op_agrees assms])

end

end
