(* ===== verification/Store_Steps.thy ===== *)
theory Store_Steps imports Abstract_Store
begin

text \<open>
  The operations of the store, cut into the steps between which the store is consistent: one
  call on the WAL with what the store does about it, or a change of cache, counters and
  nothing else. Every operation is a sequence of such steps (\<open>op_small_steps\<close>), whatever it
  returns, so that an invariant of the store and of what it has written is proved once per
  step. \<open>history\<close> is a view of the WAL that the worker does not change.
\<close>

section \<open>The steps\<close>

inductive small_step ::
  "('l::linorder, 'p, 'v::order) raft_types
     \<Rightarrow> (('l, 'v, 'u) raft_log_state \<Rightarrow> ('l, 'v, 'u) raft_log_state \<Rightarrow> bool)
     \<Rightarrow> ('l, 'p, 'v, 'u, 'w, 'c::linorder, 'g, 'cb) raft_wal
     \<Rightarrow> ('w \<Rightarrow> 'c \<Rightarrow> 'g \<Rightarrow> ('l, 'p, 'v, 'u) raft_record option) \<Rightarrow> ('w \<Rightarrow> 'c \<Rightarrow> bool)
     \<Rightarrow> ('w \<Rightarrow> ('c \<times> ('l, 'v, 'u) raft_log_state) list) \<Rightarrow> ('w \<Rightarrow> bool) \<Rightarrow> ('w \<Rightarrow> 'h)
     \<Rightarrow> ('l, 'p, 'v, 'u, 'w, 'c, 'g, 'wc) raft_log
     \<Rightarrow> ('l, 'p, 'v, 'u, 'w, 'c, 'g, 'wc) raft_log \<Rightarrow> bool"
  for T A W rec_at readable closed wal_ok history where
  ss_inside:
    "rl_config s' = rl_config s \<Longrightarrow> rl_wal s' = rl_wal s \<Longrightarrow> rl_removed s' = rl_removed s \<Longrightarrow>
       sm_log (rl_sm s') = sm_log (rl_sm s) \<Longrightarrow> sm_state (rl_sm s') = sm_state (rl_sm s) \<Longrightarrow>
       rl_inv T W rec_at readable closed wal_ok s' \<Longrightarrow>
       small_step T A W rec_at readable closed wal_ok history s s'"
| ss_refused:
    "wal_append W (rl_wal s) rec = (r, w) \<Longrightarrow> \<not> is_ok r \<Longrightarrow>
       small_step T A W rec_at readable closed wal_ok history s (s\<lparr>rl_wal := w\<rparr>)"
| ss_stored:
    "write_fits T s rec \<Longrightarrow> sm_check T (rl_sm s) rec = Ok () \<Longrightarrow>
       (\<And>k. rec = Checkpoint k \<Longrightarrow> A (log_state s) k) \<Longrightarrow>
       wal_append W (rl_wal s) rec = (Ok (), w) \<Longrightarrow>
       s' = s\<lparr>rl_wal := w, rl_sm := snd (sm_apply T (rl_sm s) rec (wal_open_chunk_id W w)
                                        (wal_last_segment W w))\<rparr> \<Longrightarrow>
       small_step T A W rec_at readable closed wal_ok history s s'"
| ss_closing:
    "wal_try_close W (rl_wal s) (sm_checkpoint (rl_sm s)) = (did, w) \<Longrightarrow>
       small_step T A W rec_at readable closed wal_ok history s (s\<lparr>rl_wal := w\<rparr>)"
| ss_retired:
    "small_step T A W rec_at readable closed wal_ok history s (buffer_removable_chunks W s)"
| ss_sent:
    "wal_send_pending W (rl_wal s) sync cb = (r, w) \<Longrightarrow>
       small_step T A W rec_at readable closed wal_ok history s (s\<lparr>rl_wal := w\<rparr>)"
| ss_removed:
    "wal_send_remove W (rl_wal s) (rl_removed s) = (r, w) \<Longrightarrow>
       small_step T A W rec_at readable closed wal_ok history s (s\<lparr>rl_removed := [], rl_wal := w\<rparr>)"
| ss_worker:
    "wal_ok w \<Longrightarrow> wal_extends rec_at readable {} (rl_wal s) w \<Longrightarrow>
       closed w = closed (rl_wal s) \<Longrightarrow> wal_open_chunk_id W w = wal_open_chunk_id W (rl_wal s) \<Longrightarrow>
       history w = history (rl_wal s) \<Longrightarrow>
       small_step T A W rec_at readable closed wal_ok history s (s\<lparr>rl_wal := w\<rparr>)"

text \<open>
  What an operation must satisfy besides \<open>op_fits\<close>: a declared state is one that \<open>A\<close> admits,
  and the flush worker writes no records of its own.
\<close>

fun op_plain ::
  "(('l, 'v, 'u) raft_log_state \<Rightarrow> ('l, 'v, 'u) raft_log_state \<Rightarrow> bool) \<Rightarrow> ('w \<Rightarrow> 'h)
     \<Rightarrow> ('l::linorder, 'p, 'v, 'u, 'w, 'c, 'g, 'wc) raft_log
     \<Rightarrow> ('l, 'p, 'v, 'u, 'w, 'cb) store_op \<Rightarrow> bool" where
  "op_plain A history s (DoUpdate st) = A (log_state s) st"
| "op_plain A history s (DoWorker w) = (history w = history (rl_wal s))"
| "op_plain A history s op = True"

lemma snd_quiet [simp]: "snd (quiet m) = snd m"
  by (cases m; cases "fst m") (simp_all add: quiet_def)

lemma snd_sbind_pure: "snd (sbind m (\<lambda>a s. (f a, s))) = snd m"
  by (cases m; cases "fst m") simp_all

lemma op_is_step:
  assumes "op_fits T W rec_at readable closed wal_ok s op"
  shows "rl_step T (\<lambda>_ _. True) W rec_at readable closed wal_ok s (snd (run_op T W op s))"
  using assms
  by (cases op) (auto simp: snd_sbind_pure list_all_iff intro: rl_step.intros surjective_pairing)

lemma read_entry_only: "\<exists>a. snd (read_entry W d s) = s\<lparr>rl_access := a\<rparr>"
  by (simp add: read_entry_def count_hit_def count_miss_def split: option.split) blast

lemma read_items_only: "\<exists>a. snd (read_items W ds s) = s\<lparr>rl_access := a\<rparr>"
proof (induction ds arbitrary: s)
  case Nil
  show ?case by (auto intro: exI [of _ "rl_access s"])
next
  case (Cons d ds)
  obtain r s1 where one: "read_entry W (snd d) s = (r, s1)" by fastforce
  obtain rs s2 where rest: "read_items W ds s1 = (rs, s2)" by fastforce
  from read_entry_only [of W "snd d" s] one obtain a where s1: "s1 = s\<lparr>rl_access := a\<rparr>" by auto
  from Cons.IH [of s1] rest s1 obtain b where "s2 = s\<lparr>rl_access := b\<rparr>" by auto
  with s1 one rest show ?case by (cases d; cases r) auto
qed

lemma read_only: "\<exists>a. snd (run_op T W (DoRead lo hi) s) = s\<lparr>rl_access := a\<rparr>"
proof (cases "hi < lo")
  case True
  then show ?thesis by (auto simp: rl_read_def bt_range_def intro: exI [of _ "rl_access s"])
next
  case False
  let ?ds = "filter (\<lambda>e. lo \<le> fst e \<and> fst e < hi) (sm_log (rl_sm s))"
  obtain items s' where run: "read_items W ?ds s = (items, s')" by fastforce
  with read_items_only [of W ?ds s] False show ?thesis
    by (simp add: snd_sbind_pure rl_read_def bt_range_def)
qed

section \<open>Every operation is a sequence of steps\<close>

context raft_wal
begin

abbreviation small_steps where
  "small_steps T A history \<equiv> (small_step T A W rec_at readable closed wal_ok history)\<^sup>*\<^sup>*"

lemma write_small_steps:
  assumes fits: "write_fits T s rec" and run: "append_and_apply T W rec s = (r, s')"
    and adm: "\<And>k. rec = Checkpoint k \<Longrightarrow> A (log_state s) k"
  shows "small_steps T A history s s'"
proof (cases rule: write_on_wal [of T s rec W])
  case (rejected e)
  with run show ?thesis by simp
next
  case (not_appended a w)
  from ss_refused [OF not_appended(2,3)] run not_appended(5) show ?thesis
    by (metis r_into_rtranclp snd_conv)
next
  case (not_closed w s2 a w2)
  have "small_step T A W rec_at readable closed wal_ok history s s2"
    by (rule ss_stored [OF fits not_closed(1) _ not_closed(2,3)]) (rule adm)
  moreover have "small_step T A W rec_at readable closed wal_ok history s2 s'"
    using ss_closing [of W s2 a w2] not_closed(3,4,7) run by simp
  ultimately show ?thesis by simp
next
  case (written w s2 did w2 s3)
  have "small_step T A W rec_at readable closed wal_ok history s s2"
    by (rule ss_stored [OF fits written(1) _ written(2,3)]) (rule adm)
  moreover have "small_step T A W rec_at readable closed wal_ok history s2 (s2\<lparr>rl_wal := w2\<rparr>)"
    using written(3,4) by (intro ss_closing [of W s2 "Ok did" w2]) simp
  ultimately have "small_steps T A history s (s2\<lparr>rl_wal := w2\<rparr>)" by simp
  moreover have "small_steps T A history (s2\<lparr>rl_wal := w2\<rparr>) s'"
    using written(5,6) run by (cases did) (auto intro!: r_into_rtranclp ss_retired)
  ultimately show ?thesis by (rule rtranclp_trans)
qed

lemma append_small_steps:
  assumes "rl_inv T W rec_at readable closed wal_ok s"
    and "list_all (\<lambda>x. appendable T s (fst x)) new" and "rl_append T W new s = (r, s')"
  shows "small_steps T A history s s'"
  using assms
proof (induction new arbitrary: s)
  case (Cons x new)
  obtain l p where x: "x = (l, p)" by (cases x)
  let ?rec = "Action (Append l p) :: ('l, 'p, 'v, 'u) raft_record"
  obtain r1 s1 where one: "append_and_apply T W ?rec s = (r1, s1)" by fastforce
  have fits: "write_fits T s ?rec"
    using Cons.prems(2) x by (simp add: write_fits_def appendable_def)
  note w = write_small_steps [OF fits one, where A = A, simplified]
  show ?case
  proof (cases r1)
    case (Ok g)
    have "list_all (\<lambda>x. appendable T s1 (fst x)) new"
      using Cons.prems(2) write_inv(4) [OF Cons.prems(1) fits one]
      by (simp add: appendable_def evictable_def)
    moreover have "rl_append T W new s1 = (r, s')" using Cons.prems(3) x one Ok by simp
    ultimately have "small_steps T A history s1 s'"
      using Cons.IH [OF write_inv(1) [OF Cons.prems(1) fits one]] by blast
    with w show ?thesis by (rule rtranclp_trans)
  qed (use Cons.prems(3) x one w in simp_all)
qed simp

lemma flush_small_steps:
  assumes "rl_flush W sync cb s = (r, s')"
  shows "small_steps T A history s s'"
proof -
  obtain r1 w where send: "wal_send_pending W (rl_wal s) sync cb = (r1, w)" by fastforce
  let ?s1 = "s\<lparr>rl_wal := w\<rparr>"
  have one: "small_step T A W rec_at readable closed wal_ok history s ?s1" by (rule ss_sent [OF send])
  obtain r2 w2 where remove: "wal_send_remove W w (rl_removed s) = (r2, w2)" by fastforce
  have "small_step T A W rec_at readable closed wal_ok history ?s1 (?s1\<lparr>rl_removed := [], rl_wal := w2\<rparr>)"
    by (rule ss_removed) (simp add: remove)
  moreover have "s' = ?s1 \<or> s' = ?s1\<lparr>rl_removed := [], rl_wal := w2\<rparr>"
    using assms send remove by (cases r1) (auto simp: rl_flush_def on_wal_def Let_def split: if_splits)
  ultimately show ?thesis using one by auto
qed

lemma op_keeps_inv:
  assumes inv: "rl_inv T W rec_at readable closed wal_ok s"
    and fits: "op_fits T W rec_at readable closed wal_ok s op"
  shows "rl_inv T W rec_at readable closed wal_ok (snd (run_op T W op s))"
proof -
  obtain es where es: "log_holds rec_at s es" using inv_holds [OF inv] .
  have "rl_step T (\<lambda>_ _. True) W rec_at readable closed wal_ok s (snd (run_op T W op s))"
    by (rule op_is_step [OF fits])
  from step_follows [OF this inv es] show ?thesis by (simp add: follows_def admits_user_data_def)
qed

lemma inside_small_steps:
  assumes "rl_inv T W rec_at readable closed wal_ok (snd (run_op T W op s))"
    and "snd (run_op T W op s) = s\<lparr>rl_sm := (rl_sm s)\<lparr>sm_cache := cache\<rparr>, rl_access := a\<rparr>"
  shows "small_steps T A history s (snd (run_op T W op s))"
  using assms by (intro r_into_rtranclp ss_inside) simp_all

lemma op_small_steps:
  assumes inv: "rl_inv T W rec_at readable closed wal_ok s"
    and fits: "op_fits T W rec_at readable closed wal_ok s op"
    and plain: "op_plain A history s op" and adm: "admits_user_data A"
  shows "small_steps T A history s (snd (run_op T W op s))"
proof (cases op)
  case (DoVote v)
  have "write_fits T s (Action (SaveVote v))" by (simp add: write_fits_def)
  from write_small_steps [OF this surjective_pairing, where A = A] DoVote show ?thesis
    by (simp add: save_vote_def)
next
  case (DoUserData u)
  let ?k = "(sm_checkpoint (rl_sm s))\<lparr>st_user_data := u\<rparr>"
  have "write_fits T s (Checkpoint ?k)"
    using inv by (simp add: write_fits_def checkpoint_point_def sm_checkpoint_def sm_inv_def rl_inv_def)
  from write_small_steps [OF this surjective_pairing, where A = A] DoUserData adm show ?thesis
    by (simp add: save_user_data_def sm_checkpoint_def log_state_def admits_user_data_def)
next
  case (DoAppend new)
  with fits append_small_steps [OF inv _ surjective_pairing] show ?thesis by simp
next
  case (DoTruncate i)
  show ?thesis
  proof (cases rule: checked_cases [of "truncate_target T i s" T s
        "\<lambda>keep s. append_and_apply T W (Action (TruncateAfter keep)) s"])
    case (1 keep)
    have "sm_inv T (rl_sm s)" using inv by (simp add: rl_inv_def)
    from truncate_target_fits [OF this 1(1)]
    have "write_fits T s (Action (TruncateAfter keep))" by (simp add: write_fits_def)
    from write_small_steps [OF this surjective_pairing, where A = A] DoTruncate 1(2) show ?thesis
      by (simp add: rl_truncate_def)
  next
    case 2
    with DoTruncate show ?thesis by (simp add: rl_truncate_def)
  qed
next
  case (DoPurge l)
  show ?thesis
  proof (cases "log_index T l < next_log_index T (st_purged (log_state s))")
    case True
    with DoPurge show ?thesis by (simp add: rl_purge_def)
  next
    case False
    let ?r = "Action (PurgeUpto l) :: ('l, 'p, 'v, 'u) raft_record"
    have wf: "write_fits T s ?r" using fits DoPurge False by (simp add: write_fits_def purgeable_def)
    obtain r1 s1 where one: "append_and_apply T W ?r s = (r1, s1)" by fastforce
    note w = write_small_steps [OF wf one, where A = A, simplified]
    have "small_step T A W rec_at readable closed wal_ok history s1 (buffer_removable_chunks W s1)"
      by (rule ss_retired)
    with w DoPurge False one show ?thesis
      by (cases r1) (auto simp: rl_purge_def intro: rtranclp.rtrancl_into_rtrancl)
  qed
next
  case (DoCommit l)
  have "write_fits T s (Action (Commit l))" by (simp add: write_fits_def)
  from write_small_steps [OF this surjective_pairing, where A = A] DoCommit show ?thesis
    by (simp add: rl_commit_def)
next
  case (DoUpdate st)
  show ?thesis
  proof (cases rule: checked_cases [of "check_checkpoint T (rl_sm s) st" T s
        "\<lambda>_ s. append_and_apply T W (Checkpoint st) s"])
    case (1 u)
    have "write_fits T s (Checkpoint st)"
      using fits DoUpdate 1(1) by (simp add: write_fits_def declarable_def)
    from write_small_steps [OF this surjective_pairing, where A = A] DoUpdate 1(2) plain show ?thesis
      by (simp add: update_state_def)
  next
    case 2
    with DoUpdate show ?thesis by (simp add: update_state_def)
  qed
next
  case (DoFlush sync cb)
  with flush_small_steps [OF surjective_pairing] show ?thesis by simp
next
  case (DoRead lo hi)
  from read_only [where T = T and W = W and lo = lo and hi = hi and s = s] obtain a where
    "snd (run_op T W op s) = s\<lparr>rl_access := a\<rparr>" using DoRead by blast
  then show ?thesis
    by (intro inside_small_steps [where cache = "sm_cache (rl_sm s)" and a = a] op_keeps_inv inv fits) simp
next
  case (DoWorker w)
  with fits plain show ?thesis by (auto intro: ss_worker)
next
  case DoDrain
  then show ?thesis
    by (intro inside_small_steps [where a = "rl_access s"] op_keeps_inv inv fits)
      (simp add: drain_cache_evictable_def)
next
  case (DoPersisted ck)
  then show ?thesis
    by (intro inside_small_steps [where a = "rl_access s"] op_keeps_inv inv fits)
      (simp add: worker_callback_def)
qed

lemma run_small_steps:
  assumes "rl_inv T W rec_at readable closed wal_ok s" and "admits_user_data A"
    and "along (\<lambda>s op. snd (run_op T W op s))
       (\<lambda>s op. op_fits T W rec_at readable closed wal_ok s op \<and> op_plain A history s op) s ops"
  shows "small_steps T A history s (foldl (\<lambda>s op. snd (run_op T W op s)) s ops)"
  using assms
proof (induction ops arbitrary: s)
  case (Cons op ops)
  then have "small_steps T A history s (snd (run_op T W op s))" by (intro op_small_steps) simp_all
  also have "small_steps T A history (snd (run_op T W op s))
      (foldl (\<lambda>s op. snd (run_op T W op s)) s (op # ops))"
    using Cons op_keeps_inv [of T s op] by simp
  finally show ?case .
qed simp

text \<open>The invariant at every step.\<close>

lemma small_step_inv:
  assumes "small_step T A W rec_at readable closed wal_ok history s s'"
    and inv: "rl_inv T W rec_at readable closed wal_ok s"
  shows "rl_inv T W rec_at readable closed wal_ok s'"
proof -
  have ok: "wal_ok (rl_wal s)" using inv by (simp add: rl_inv_def)
  show ?thesis
    using assms(1)
  proof cases
    case (ss_refused rec r w)
    with append_law [OF ok ss_refused(2)] show ?thesis by (auto intro: inv_wal_same [OF inv])
  next
    case (ss_stored rec w)
    show ?thesis by (rule inv_stored [OF inv ss_stored(1,2,4,5)])
  next
    case (ss_closing did w)
    with inv_close(1) [OF inv ss_closing(2)] show ?thesis by simp
  next
    case ss_retired
    with inv_buffer(1) [OF inv] show ?thesis by simp
  next
    case (ss_sent sync cb r w)
    with send_pending_law [OF ok ss_sent(2)] show ?thesis by (auto intro: inv_wal_same [OF inv])
  next
    case (ss_removed r w)
    with inv_send_remove(1) [OF inv ss_removed(2)] show ?thesis by simp
  next
    case (ss_worker w)
    with inv_wal_same [OF inv ss_worker(2-5)] show ?thesis by simp
  qed
qed

lemma small_steps_inv:
  assumes "small_steps T A history s s'" and "rl_inv T W rec_at readable closed wal_ok s"
  shows "rl_inv T W rec_at readable closed wal_ok s'"
  using assms by (induction rule: rtranclp_induct) (auto intro: small_step_inv)

end

end
