(* ===== verification/Crash_Recovery.thy ===== *)
theory Crash_Recovery imports Store_Steps
begin

text \<open>
  What a restart finds. The locale \<open>recorded_wal\<close> adds one more view of the WAL to the laws:
  the records ever written to it, in order, each with its chunk and segment (the checkpoint
  that a new chunk starts with included). \<open>play\<close> is what these records mean for the log state
  and the list of entries. The invariant \<open>recorded\<close> of a store in use says that its log state
  and entries are what its records mean, that the replay of every prefix of them gives what
  that prefix means, and that every chunk that is closed, or set aside for removal, ends at a
  checkpoint record.
\<close>

section \<open>The meaning of what was written\<close>

type_synonym ('l, 'p, 'v, 'u, 'c, 'g) written =
  "(('l, 'p, 'v, 'u) raft_record \<times> 'c \<times> 'g) list"

definition effect_of ::
  "('l::linorder, 'v, 'u) raft_log_state \<times> ('l \<times> 'p) list
     \<Rightarrow> ('l, 'p, 'v, 'u) raft_record \<times> 'c \<times> 'g
     \<Rightarrow> ('l, 'v, 'u) raft_log_state \<times> ('l \<times> 'p) list" where
  "effect_of a i = (state_effect (fst a) (fst i), log_effect (fst i) (snd a))"

definition play ::
  "('l::linorder, 'p, 'v, 'u, 'c, 'g) written
     \<Rightarrow> ('l, 'v, 'u) raft_log_state \<times> ('l \<times> 'p) list" where
  "play h = foldl effect_of (default_state, []) h"

lemma play_simps [simp]:
  "play [] = (default_state, [])"
  "play (h @ [i]) = (state_effect (fst (play h)) (fst i), log_effect (fst i) (snd (play h)))"
  by (simp_all add: play_def effect_of_def)

text \<open>The log map holds these entries, and each comes from an append among these records.\<close>

definition logged_in ::
  "('l, 'p, 'v, 'u, 'c, 'g) written \<Rightarrow> ('l, 'p, 'v, 'u, 'c, 'g) state_machine
     \<Rightarrow> ('l \<times> 'p) list \<Rightarrow> bool" where
  "logged_in h sm es \<longleftrightarrow>
     list_all2 (\<lambda>e x. entry_id e = fst x
        \<and> (Action (Append (fst x) (snd x)), ld_chunk_id (snd e), ld_segment (snd e)) \<in> set h)
       (sm_log sm) es"

lemma logged_in_mono: "logged_in h sm es \<Longrightarrow> set h \<subseteq> set h' \<Longrightarrow> logged_in h' sm es"
  unfolding logged_in_def by (erule list_all2_mono) blast

lemma logged_touch:
  fixes sm :: "('l::linorder, 'p, 'v::order, 'u, 'c, 'g) state_machine"
  assumes "sm_inv T sm" and "record_fits T sm rec" and "sm_check T sm rec = Ok ()"
    and logged: "logged_in h sm es"
  shows "logged_in (h @ [(rec, c, g)]) (sm_touch T sm rec c g) (log_effect rec es)"
proof -
  have all: "logged_in (h @ [(rec, c, g)]) sm es" by (rule logged_in_mono [OF logged]) auto
  then show ?thesis
    unfolding logged_in_def touch_entries [OF assms(1-3)]
    by (cases "(rec, es)" rule: log_effect.cases)
      (auto intro!: list_all2_appendI all2_filter)
qed

definition replays ::
  "('l::linorder, 'p, 'v::order) raft_types \<Rightarrow> 'wc config
     \<Rightarrow> ('l, 'p, 'v, 'u, 'c, 'g) written \<Rightarrow> ('l, 'p, 'v, 'u, 'c, 'g) state_machine \<Rightarrow> bool" where
  "replays T cfg h m \<longleftrightarrow>
     sm_replay T (sm_new cfg) h = (Ok (), m) \<and> sm_inv T m
     \<and> sm_state m = fst (play h) \<and> logged_in h m (snd (play h))"

definition rebuilt ::
  "('l::linorder, 'p, 'v::order) raft_types
     \<Rightarrow> (('l, 'v, 'u) raft_log_state \<Rightarrow> ('l, 'v, 'u) raft_log_state \<Rightarrow> bool) \<Rightarrow> 'wc config
     \<Rightarrow> ('l, 'p, 'v, 'u, 'c, 'g) written \<Rightarrow> bool" where
  "rebuilt T A cfg h \<longleftrightarrow>
     (\<forall>pre post. h = pre @ post \<longrightarrow> (\<exists>m. replays T cfg pre m))
     \<and> (\<forall>pre i post. h = pre @ i # post \<longrightarrow> accepted T A (play pre) (play (pre @ [i])))"

lemma rebuilt_prefix: "rebuilt T A cfg (pre @ post) \<Longrightarrow> rebuilt T A cfg pre"
  by (simp add: rebuilt_def) (metis append.assoc append_Cons)

lemma rebuilt_replays:
  assumes "rebuilt T A cfg h"
  obtains m where "replays T cfg h m"
proof -
  have "h = h @ []" by simp
  with assms that show ?thesis unfolding rebuilt_def by blast
qed

text \<open>What a longer history means is reached from what its prefix means by accepted records.\<close>

lemma rebuilt_accepted:
  assumes "rebuilt T A cfg (pre @ post)"
  shows "(accepted T A)\<^sup>*\<^sup>* (play pre) (play (pre @ post))"
  using assms
proof (induction post rule: rev_induct)
  case (snoc i post)
  then have "(accepted T A)\<^sup>*\<^sup>* (play pre) (play (pre @ post))"
    using rebuilt_prefix [of T A cfg "pre @ post" "[i]"] by simp
  moreover have "pre @ post @ [i] = (pre @ post) @ i # []" by simp
  with snoc.prems have "accepted T A (play (pre @ post)) (play ((pre @ post) @ [i]))"
    unfolding rebuilt_def by blast
  ultimately show ?case by simp
qed simp

lemma same_parts:
  assumes "sm_log m = sm_log sm" and "sm_state m = sm_state sm"
  shows "sm_check T m rec = sm_check T sm rec" and "record_fits T m rec = record_fits T sm rec"
    and "sm_inv T m = sm_inv T sm"
    and "sm_log (sm_touch T m rec c g) = sm_log (sm_touch T sm rec c g)"
proof -
  show "sm_check T m rec = sm_check T sm rec" using assms by (simp add: sm_check_def)
  show "sm_inv T m = sm_inv T sm" using assms by (simp add: sm_inv_def)
  have "check_checkpoint T m st = check_checkpoint T sm st" for st
    unfolding check_checkpoint_def assms(1) ..
  then show "record_fits T m rec = record_fits T sm rec"
    using assms by (cases "(T, sm, rec)" rule: record_fits.cases)
      (simp_all add: truncate_point_def purge_point_def checkpoint_point_def)
  show "sm_log (sm_touch T m rec c g) = sm_log (sm_touch T sm rec c g)"
    using assms by (cases "(T, sm, rec, c, g)" rule: sm_touch.cases) (auto simp: Let_def)
qed

text \<open>One more record, when the state machine accepts it.\<close>

lemma replays_snoc:
  assumes "replays T cfg h m" and "record_fits T m rec" and "sm_check T m rec = Ok ()"
  shows "replays T cfg (h @ [(rec, c, g)]) (snd (sm_apply T m rec c g))"
proof -
  have m: "sm_replay T (sm_new cfg) h = (Ok (), m)" "sm_inv T m" "sm_state m = fst (play h)"
    "logged_in h m (snd (play h))" using assms(1) by (simp_all add: replays_def)
  note step = sm_apply_accepted [OF assms(3), of c g]
  have "sm_replay T (sm_new cfg) (h @ [(rec, c, g)]) = sm_apply T m rec c g"
    by (simp add: sm_replay_append m(1) step)
  moreover have "sm_inv T (snd (sm_apply T m rec c g))"
    using accepted_inv [OF m(2) assms(2,3), of c g] step by simp
  moreover have "logged_in (h @ [(rec, c, g)]) (snd (sm_apply T m rec c g)) (log_effect rec (snd (play h)))"
    using logged_touch [OF m(2) assms(2,3) m(4), of c g] step by (simp add: logged_in_def)
  ultimately show ?thesis using step m(3) by (simp add: replays_def)
qed

lemma rebuilt_snoc:
  assumes old: "rebuilt T A cfg h" and m: "replays T cfg h m"
    and fits: "record_fits T m rec" and check: "sm_check T m rec = Ok ()"
    and adm: "\<And>k. rec = Checkpoint k \<Longrightarrow> A (sm_state m) k"
  shows "rebuilt T A cfg (h @ [(rec, c, g)])"
proof -
  let ?i = "(rec, c, g)"
  have "\<exists>n. replays T cfg pre n" if "h @ [?i] = pre @ post" for pre post
  proof (cases post rule: rev_cases)
    case Nil
    with that replays_snoc [OF m fits check, of c g] show ?thesis by auto
  next
    case (snoc ys y)
    with that have "h = pre @ ys" by simp
    with old show ?thesis unfolding rebuilt_def by blast
  qed
  moreover have "accepted T A (play pre) (play (pre @ [i]))" if "h @ [?i] = pre @ i # post" for pre i post
  proof (cases post rule: rev_cases)
    case Nil
    with that have pre: "pre = h" "i = ?i" by auto
    have st: "sm_state m = fst (play h)" using m by (simp add: replays_def)
    have "accepted T A (fst (play h), snd (play h))
        (state_effect (fst (play h)) rec, log_effect rec (snd (play h)))"
      by (rule accept) (use check adm st in \<open>auto simp: sm_check_def\<close>)
    with pre show ?thesis by simp
  next
    case (snoc ys y)
    with that have "h = pre @ i # ys" by simp
    with old show ?thesis unfolding rebuilt_def by blast
  qed
  ultimately show ?thesis unfolding rebuilt_def by blast
qed

section \<open>The end of a chunk\<close>

text \<open>
  Chunk \<open>c\<close> ended with the state \<open>k\<close>: the record after it is the checkpoint of \<open>k\<close>, and the
  chunk ids tell the records before it from those after it.
\<close>

definition cut_at :: "('l, 'p, 'v, 'u, 'c::linorder, 'g) written \<Rightarrow> 'c \<Rightarrow> ('l, 'v, 'u) raft_log_state \<Rightarrow> bool"
where
  "cut_at h c k \<longleftrightarrow>
     (\<exists>old c' g rest. h = old @ (Checkpoint k, c', g) # rest
        \<and> (\<forall>i \<in> set old. fst (snd i) \<le> c) \<and> c < c' \<and> (\<forall>i \<in> set rest. c < fst (snd i)))"

lemma cut_at_end:
  "\<forall>i \<in> set h. fst (snd i) \<le> c \<Longrightarrow> c < c' \<Longrightarrow> cut_at (h @ [(Checkpoint k, c', g)]) c k"
  unfolding cut_at_def by (intro exI [of _ h] exI) (auto intro: exI [of _ "[]"])

lemma cut_at_snoc:
  assumes "cut_at h c k" and "c < fst (snd i)"
  shows "cut_at (h @ [i]) c k"
proof -
  from assms(1) obtain old c' g rest where "h = old @ (Checkpoint k, c', g) # rest"
    "\<forall>i \<in> set old. fst (snd i) \<le> c" "c < c'" "\<forall>i \<in> set rest. c < fst (snd i)"
    unfolding cut_at_def by blast
  then show ?thesis
    using assms(2) unfolding cut_at_def
    by (intro exI [of _ old] exI [of _ c'] exI [of _ g] exI [of _ "rest @ [i]"]) auto
qed

lemma cut_at_more:
  assumes "cut_at h c k" and "\<forall>i \<in> set later. c < fst (snd i)"
  shows "cut_at (h @ later) c k"
  using assms(2)
proof (induction later rule: rev_induct)
  case (snoc i later)
  then have "cut_at (h @ later) c k" by simp
  from cut_at_snoc [OF this, of i] snoc.prems show ?case by simp
qed (simp add: assms(1))

text \<open>Without the chunks up to such an end, the replay still rebuilds the same log.\<close>

lemma cut_replay:
  assumes built: "rebuilt T A cfg h" and final: "replays T cfg h final"
    and cut: "cut_at h c k" and gone: "st_last k \<le> st_purged (sm_state final)"
  shows "\<exists>res. sm_replay T (sm_new cfg) (filter (\<lambda>i. c < fst (snd i)) h) = (Ok (), res)
     \<and> sm_state res = sm_state final \<and> sm_log res = sm_log final"
proof -
  from cut obtain old c' g rest where h: "h = old @ (Checkpoint k, c', g) # rest"
    and below: "\<forall>i \<in> set old. fst (snd i) \<le> c" and above: "c < c'" "\<forall>i \<in> set rest. c < fst (snd i)"
    unfolding cut_at_def by blast
  have "filter (\<lambda>i. c < fst (snd i)) old = []" using below by (auto simp: filter_empty_conv not_less)
  moreover have "filter (\<lambda>i. c < fst (snd i)) rest = rest" using above by (simp add: filter_id_conv)
  ultimately have kept: "filter (\<lambda>i. c < fst (snd i)) h = (Checkpoint k, c', g) # rest"
    using above by (simp add: h)
  let ?pre = "old @ [(Checkpoint k, c', g)]"
  have h': "h = ?pre @ rest" by (simp add: h)
  obtain mid where mid: "replays T cfg ?pre mid"
    using built h' unfolding rebuilt_def by blast
  have st: "sm_state mid = k" using mid by (simp add: replays_def)
  have run: "sm_replay T (sm_new cfg) ?pre = (Ok (), mid)" "sm_replay T (sm_new cfg) h = (Ok (), final)"
    using mid final by (simp_all add: replays_def)
  have "sm_replay T mid rest = (Ok (), final)"
    using run(2) run(1) unfolding h' sm_replay_append [of T "sm_new cfg" ?pre rest] by simp
  then have new: "sm_replay T mid ((Checkpoint (sm_state mid), c', g) # rest) = (Ok (), final)"
    by (simp add: sm_apply_def state_apply_def)
  have "sm_inv T mid" "sm_inv T final" using mid final by (simp_all add: replays_def)
  from suffix_replay [OF this(1) new this(2)] gone st kept show ?thesis by simp
qed

section \<open>The store and what it has written\<close>

definition recorded ::
  "('l::linorder, 'p, 'v::order) raft_types
     \<Rightarrow> (('l, 'v, 'u) raft_log_state \<Rightarrow> ('l, 'v, 'u) raft_log_state \<Rightarrow> bool)
     \<Rightarrow> ('w \<Rightarrow> 'c \<Rightarrow> 'g \<Rightarrow> ('l, 'p, 'v, 'u) raft_record option)
     \<Rightarrow> ('w \<Rightarrow> ('c::linorder \<times> ('l, 'v, 'u) raft_log_state) list)
     \<Rightarrow> ('w \<Rightarrow> ('l, 'p, 'v, 'u, 'c, 'g) written)
     \<Rightarrow> ('l, 'p, 'v, 'u, 'w, 'c, 'g, 'wc) raft_log \<Rightarrow> bool" where
  "recorded T A rec_at closed history s \<longleftrightarrow>
     rebuilt T A (rl_config s) (history (rl_wal s))
     \<and> (\<exists>m. replays T (rl_config s) (history (rl_wal s)) m
          \<and> sm_log m = sm_log (rl_sm s) \<and> sm_state m = sm_state (rl_sm s))
     \<and> log_holds rec_at s (snd (play (history (rl_wal s))))
     \<and> (\<forall>(c, k) \<in> set (closed (rl_wal s)). cut_at (history (rl_wal s)) c k)
     \<and> (\<forall>c \<in> set (rl_removed s). \<exists>k. cut_at (history (rl_wal s)) c k
          \<and> st_last k \<le> st_purged (log_state s))"

lemma recorded_state: "recorded T A rec_at closed history s \<Longrightarrow> log_state s = fst (play (history (rl_wal s)))"
  by (auto simp: recorded_def replays_def log_state_def)

text \<open>An admitted state does not take back the purge position; neither does any record.\<close>

definition keeps_purge ::
  "(('l::linorder, 'v, 'u) raft_log_state \<Rightarrow> ('l, 'v, 'u) raft_log_state \<Rightarrow> bool) \<Rightarrow> bool" where
  "keeps_purge A \<longleftrightarrow> (\<forall>st k. A st k \<longrightarrow> st_purged st \<le> st_purged k)"

lemma admits_same: "admits_user_data A \<Longrightarrow> A st st"
  unfolding admits_user_data_def by (cases st) (metis raft_log_state.update_convs(5))

lemma purge_effect:
  assumes "keeps_purge A" and "\<And>k. rec = Checkpoint k \<Longrightarrow> A st k"
  shows "st_purged st \<le> st_purged (state_effect st rec)"
  using assms by (cases "(st, rec)" rule: state_effect.cases) (auto simp: keeps_purge_def)

lemma accepted_purge:
  assumes "keeps_purge A" and "(accepted T A)\<^sup>*\<^sup>* a b"
  shows "st_purged (fst a) \<le> st_purged (fst b)"
  using assms(2)
proof (induction rule: rtranclp_induct)
  case (step b c)
  from step.hyps(2) have "st_purged (fst b) \<le> st_purged (fst c)"
    by cases (use purge_effect [OF assms(1)] in auto)
  with step.IH show ?case by simp
qed simp

text \<open>What is written is only added to, and no longer to chunks that were closed before.\<close>

definition grown ::
  "('l, 'p, 'v, 'u, 'w, 'c::linorder, 'g, 'cb) raft_wal \<Rightarrow> ('w \<Rightarrow> ('l, 'p, 'v, 'u, 'c, 'g) written)
     \<Rightarrow> ('l, 'p, 'v, 'u, 'w, 'c, 'g, 'wc) raft_log
     \<Rightarrow> ('l, 'p, 'v, 'u, 'w, 'c, 'g, 'wc) raft_log \<Rightarrow> bool" where
  "grown W history s s' \<longleftrightarrow>
     rl_config s' = rl_config s \<and> wal_open_chunk_id W (rl_wal s) \<le> wal_open_chunk_id W (rl_wal s')
     \<and> (\<exists>later. history (rl_wal s') = history (rl_wal s) @ later
          \<and> (\<forall>i \<in> set later. wal_open_chunk_id W (rl_wal s) \<le> fst (snd i)))"

locale recorded_wal = raft_wal W rec_at readable closed wal_ok
  for W :: "('w, 'c::linorder, 'g, 'cb, ('l::linorder, 'p, 'v::order, 'u) raft_record,
      ('l, 'v, 'u) raft_log_state) wal_api"
    and rec_at :: "'w \<Rightarrow> 'c \<Rightarrow> 'g \<Rightarrow> ('l, 'p, 'v, 'u) raft_record option"
    and readable :: "'w \<Rightarrow> 'c \<Rightarrow> bool"
    and closed :: "'w \<Rightarrow> ('c \<times> ('l, 'v, 'u) raft_log_state) list"
    and wal_ok :: "'w \<Rightarrow> bool" +
  fixes history :: "'w \<Rightarrow> ('l, 'p, 'v, 'u, 'c, 'g) written"
  assumes history_order: "wal_ok w \<Longrightarrow> i \<in> set (history w) \<Longrightarrow> fst (snd i) \<le> wal_open_chunk_id W w"
    and history_append: "wal_ok w \<Longrightarrow> wal_append W w rec = (res, w') \<Longrightarrow>
       history w' = (if is_ok res then
         history w @ [(rec, wal_open_chunk_id W w', wal_last_segment W w')] else history w)"
    and history_close: "wal_ok w \<Longrightarrow> wal_try_close W w k = (did, w') \<Longrightarrow>
       closed w' = closed w \<and> wal_open_chunk_id W w' = wal_open_chunk_id W w \<and> history w' = history w
       \<or> closed w' = closed w @ [(wal_open_chunk_id W w, k)]
         \<and> (\<exists>g. history w' = history w @ [(Checkpoint k, wal_open_chunk_id W w', g)])"
    and history_drain: "wal_ok w \<Longrightarrow> wal_drain_closed W w P = (ids, w') \<Longrightarrow> history w' = history w"
    and history_pending:
      "wal_ok w \<Longrightarrow> wal_send_pending W w sync cb = (res, w') \<Longrightarrow> history w' = history w"
    and history_remove: "wal_ok w \<Longrightarrow> wal_send_remove W w ids = (res, w') \<Longrightarrow> history w' = history w"
begin

abbreviation good where
  "good T A s \<equiv> recorded T A rec_at closed history s \<and> rl_inv T W rec_at readable closed wal_ok s"

text \<open>A call that only moves records about, or only touches cache, counters and buffer.\<close>

lemma recorded_same:
  assumes rec: "recorded T A rec_at closed history s" and "rl_config s' = rl_config s"
    and hist: "history (rl_wal s') = history (rl_wal s)"
    and log: "sm_log (rl_sm s') = sm_log (rl_sm s)" and st: "sm_state (rl_sm s') = sm_state (rl_sm s)"
    and "set (closed (rl_wal s')) \<subseteq> set (closed (rl_wal s))"
    and "set (rl_removed s') \<subseteq> set (rl_removed s)"
    and "\<And>es. log_holds rec_at s es \<Longrightarrow> log_holds rec_at s' es"
  shows "recorded T A rec_at closed history s'"
  using assms unfolding recorded_def log_state_def by (simp only:) blast

lemma recorded_stored:
  assumes rec: "recorded T A rec_at closed history s" and inv: "rl_inv T W rec_at readable closed wal_ok s"
    and fits: "write_fits T s r" and check: "sm_check T (rl_sm s) r = Ok ()"
    and adm: "\<And>k. r = Checkpoint k \<Longrightarrow> A (log_state s) k" and keeps: "keeps_purge A"
    and app: "wal_append W (rl_wal s) r = (Ok (), w)"
    and s': "s' = s\<lparr>rl_wal := w, rl_sm := snd (sm_apply T (rl_sm s) r (wal_open_chunk_id W w)
                                       (wal_last_segment W w))\<rparr>"
  shows "recorded T A rec_at closed history s'"
proof -
  have ok: "wal_ok (rl_wal s)"
    and removed: "\<And>c. c \<in> set (rl_removed s) \<Longrightarrow> c < wal_open_chunk_id W (rl_wal s)"
    using inv by (simp_all add: rl_inv_def)
  have law: "closed w = closed (rl_wal s)" "wal_open_chunk_id W w = wal_open_chunk_id W (rl_wal s)"
    using append_law [OF ok app] by blast+
  let ?i = "(r, wal_open_chunk_id W w, wal_last_segment W w)"
  have hist: "history w = history (rl_wal s) @ [?i]"
    using history_append [OF ok app] by simp
  obtain m where built: "rebuilt T A (rl_config s) (history (rl_wal s))"
    and m: "replays T (rl_config s) (history (rl_wal s)) m"
    and same: "sm_log m = sm_log (rl_sm s)" "sm_state m = sm_state (rl_sm s)"
    and holds: "log_holds rec_at s (snd (play (history (rl_wal s))))"
    using rec by (auto simp: recorded_def)
  have fits': "record_fits T m r" "sm_check T m r = Ok ()"
    using fits check same_parts [OF same] by (simp_all add: write_fits_def)
  have "rebuilt T A (rl_config s') (history w)"
    using rebuilt_snoc [OF built m fits'] adm same(2) by (simp add: hist s' log_state_def)
  moreover have "replays T (rl_config s') (history w)
      (snd (sm_apply T m r (wal_open_chunk_id W w) (wal_last_segment W w)))"
    using replays_snoc [OF m fits'] by (simp add: hist s')
  moreover have "sm_log (snd (sm_apply T m r c g)) = sm_log (snd (sm_apply T (rl_sm s) r c g))
      \<and> sm_state (snd (sm_apply T m r c g)) = sm_state (snd (sm_apply T (rl_sm s) r c g))" for c g
    using sm_apply_accepted [OF check] sm_apply_accepted [OF fits'(2)] same same_parts(4) [OF same] by simp
  moreover have "log_holds rec_at s' (snd (play (history w)))"
    using inv_stored(2) [OF inv fits check app s' holds] by (simp add: hist)
  moreover have snoc: "cut_at (history w) c k"
    if "cut_at (history (rl_wal s)) c k" "c < wal_open_chunk_id W (rl_wal s)" for c k
    using cut_at_snoc [OF that(1), of ?i] that(2) hist law(2) by simp
  moreover have "cut_at (history w) c k" if "(c, k) \<in> set (closed w)" for c k
    using rec that snoc closed_before_open [OF ok, of "(c, k)"] law(1) by (fastforce simp: recorded_def)
  moreover have "st_purged (log_state s) \<le> st_purged (log_state s')"
    using purge_effect [OF keeps, of r "log_state s"] adm
    by (simp add: s' log_state_def sm_apply_accepted [OF check])
  then have "\<exists>k. cut_at (history w) c k \<and> st_last k \<le> st_purged (log_state s')"
    if "c \<in> set (rl_removed s)" for c
    using rec that snoc removed [OF that] order_trans unfolding recorded_def by blast
  ultimately show ?thesis unfolding recorded_def by (auto simp: s')
qed

lemma recorded_closing:
  assumes rec: "recorded T A rec_at closed history s" and inv: "rl_inv T W rec_at readable closed wal_ok s"
    and adm: "admits_user_data A"
    and close: "wal_try_close W (rl_wal s) (sm_checkpoint (rl_sm s)) = (r, w)"
  shows "recorded T A rec_at closed history (s\<lparr>rl_wal := w\<rparr>)"
proof -
  have ok: "wal_ok (rl_wal s)" and sm: "sm_inv T (rl_sm s)"
    and removed: "\<And>c. c \<in> set (rl_removed s) \<Longrightarrow> c < wal_open_chunk_id W (rl_wal s)"
    using inv by (simp_all add: rl_inv_def)
  let ?k = "sm_state (rl_sm s)" and ?open = "wal_open_chunk_id W (rl_wal s)"
  have holds: "log_holds rec_at (s\<lparr>rl_wal := w\<rparr>) es" if "log_holds rec_at s es" for es
    using holds_wal [OF that, of "{}" w] close_law [OF ok close] by simp
  from history_close [OF ok close] close_law [OF ok close]
  consider (same) "closed w = closed (rl_wal s)" "history w = history (rl_wal s)"
    | (closed) g where "closed w = closed (rl_wal s) @ [(?open, ?k)]" "?open < wal_open_chunk_id W w"
        "history w = history (rl_wal s) @ [(Checkpoint ?k, wal_open_chunk_id W w, g)]"
    by (auto simp: sm_checkpoint_def)
  then show ?thesis
  proof cases
    case same
    with holds show ?thesis by (intro recorded_same [OF rec]) simp_all
  next
    case closed
    let ?i = "(Checkpoint ?k, wal_open_chunk_id W w, g) :: ('l, 'p, 'v, 'u) raft_record \<times> 'c \<times> 'g"
    obtain m where built: "rebuilt T A (rl_config s) (history (rl_wal s))"
      and m: "replays T (rl_config s) (history (rl_wal s)) m"
      and same: "sm_log m = sm_log (rl_sm s)" "sm_state m = ?k"
      using rec by (auto simp: recorded_def)
    have "record_fits T (rl_sm s) (Checkpoint ?k)"
      using sm by (simp add: checkpoint_point_def sm_inv_def)
    then have "record_fits T m (Checkpoint ?k)" using same_parts(2) [OF same] by metis
    moreover have "sm_check T m (Checkpoint ?k) = Ok ()" by (simp add: sm_check_def)
    ultimately have fits: "record_fits T m (Checkpoint ?k)" "sm_check T m (Checkpoint ?k) = Ok ()" .
    have "A ?k ?k" by (rule admits_same [OF adm])
    then have "rebuilt T A (rl_config s) (history w)"
      using rebuilt_snoc [OF built m fits] same(2) closed(3) by simp
    moreover have "replays T (rl_config s) (history w)
        (snd (sm_apply T m (Checkpoint ?k) (wal_open_chunk_id W w) g))"
      using replays_snoc [OF m fits] closed(3) by simp
    moreover have "sm_log (snd (sm_apply T m (Checkpoint ?k) c g)) = sm_log (rl_sm s)
        \<and> sm_state (snd (sm_apply T m (Checkpoint ?k) c g)) = ?k" for c g
      using sm_apply_accepted [OF fits(2)] same by simp
    moreover have "log_holds rec_at (s\<lparr>rl_wal := w\<rparr>) (snd (play (history w)))"
      using holds rec closed(3) by (simp add: recorded_def)
    moreover have snoc: "cut_at (history w) c k" if "cut_at (history (rl_wal s)) c k" "c < ?open" for c k
      using cut_at_snoc [OF that(1), of ?i] that(2) closed(2,3) by simp
    moreover have "cut_at (history w) ?open ?k"
      unfolding closed(3) by (rule cut_at_end) (use history_order [OF ok] closed(2) in auto)
    moreover have "cut_at (history w) c k" if "(c, k) \<in> set (closed (rl_wal s))" for c k
      using rec snoc closed_before_open [OF ok that] that by (fastforce simp: recorded_def)
    moreover have "\<exists>k. cut_at (history w) c k \<and> st_last k \<le> st_purged (log_state s)"
      if "c \<in> set (rl_removed s)" for c
      using rec snoc removed [OF that] that unfolding recorded_def by blast
    ultimately show ?thesis using closed(1) unfolding recorded_def by (auto simp: log_state_def)
  qed
qed

lemma recorded_retired:
  assumes rec: "recorded T A rec_at closed history s" and inv: "rl_inv T W rec_at readable closed wal_ok s"
  shows "recorded T A rec_at closed history (buffer_removable_chunks W s)"
proof (cases "st_purged (log_state s)")
  case None
  with rec show ?thesis by (simp add: buffer_removable_chunks_def)
next
  case (Some p)
  have ok: "wal_ok (rl_wal s)" using inv by (simp add: rl_inv_def)
  obtain ids w where drain: "wal_drain_closed W (rl_wal s) (\<lambda>k. st_last k \<le> Some p) = (ids, w)"
    by fastforce
  have hist: "history w = history (rl_wal s)" by (rule history_drain [OF ok drain])
  have eq: "buffer_removable_chunks W s = s\<lparr>rl_wal := w, rl_removed := rl_removed s @ ids\<rparr>"
    using Some drain by (simp add: buffer_removable_chunks_def)
  have cuts: "cut_at (history w) c k" if "(c, k) \<in> set (closed (rl_wal s))" for c k
    using rec that hist by (auto simp: recorded_def)
  have "\<exists>k. cut_at (history w) c k \<and> st_last k \<le> Some p" if "c \<in> set ids" for c
    using drained_ids [OF ok drain that] cuts by blast
  moreover have "cut_at (history w) c k" if "(c, k) \<in> set (closed w)" for c k
    using closed_after_drain [OF ok drain that] cuts by simp
  moreover have "log_holds rec_at (buffer_removable_chunks W s) (snd (play (history (rl_wal s))))"
    using inv_buffer(2) [OF inv] rec by (simp add: recorded_def)
  ultimately show ?thesis
    using rec Some hist unfolding recorded_def eq log_state_def by auto
qed

text \<open>Each step, and with it any operation of the store, whatever its outcome.\<close>

lemma small_step_recorded:
  assumes "small_step T A W rec_at readable closed wal_ok history s s'"
    and rec: "recorded T A rec_at closed history s" and inv: "rl_inv T W rec_at readable closed wal_ok s"
    and adm: "admits_user_data A" and keeps: "keeps_purge A"
  shows "recorded T A rec_at closed history s'"
proof -
  have ok: "wal_ok (rl_wal s)" using inv by (simp add: rl_inv_def)
  note holds = holds_wal [where A = "{}" and s = s, simplified]
  show ?thesis
    using assms(1)
  proof cases
    case ss_inside
    then show ?thesis by (intro recorded_same [OF rec]) (simp_all add: log_holds_def)
  next
    case (ss_refused r res w)
    with append_law [OF ok ss_refused(2)] history_append [OF ok ss_refused(2)] holds
    show ?thesis by (intro recorded_same [OF rec]) simp_all
  next
    case (ss_stored r w)
    show ?thesis
      by (rule recorded_stored [OF rec inv ss_stored(1,2) _ keeps ss_stored(4,5)]) (rule ss_stored(3))
  next
    case (ss_closing did w)
    with recorded_closing [OF rec inv adm ss_closing(2)] show ?thesis by simp
  next
    case ss_retired
    with recorded_retired [OF rec inv] show ?thesis by simp
  next
    case (ss_sent sync cb r w)
    with send_pending_law [OF ok ss_sent(2)] history_pending [OF ok ss_sent(2)] holds
    show ?thesis by (intro recorded_same [OF rec]) simp_all
  next
    case (ss_removed r w)
    with send_remove_law [OF ok ss_removed(2)] history_remove [OF ok ss_removed(2)]
      inv_send_remove(2) [OF inv ss_removed(2)]
    show ?thesis by (intro recorded_same [OF rec]) simp_all
  next
    case (ss_worker w)
    with holds show ?thesis by (intro recorded_same [OF rec]) simp_all
  qed
qed

lemma small_steps_recorded:
  assumes "small_steps T A history s s'" and "good T A s"
    and "admits_user_data A" and "keeps_purge A"
  shows "good T A s'"
  using assms by (induction rule: rtranclp_induct) (auto intro: small_step_recorded small_step_inv)

lemma run_recorded:
  assumes "good T A s" and "admits_user_data A" and "keeps_purge A"
    and "along (\<lambda>s op. snd (run_op T W op s))
       (\<lambda>s op. op_fits T W rec_at readable closed wal_ok s op \<and> op_plain A history s op) s ops"
  shows "good T A (foldl (\<lambda>s op. snd (run_op T W op s)) s ops)"
  by (rule small_steps_recorded [OF run_small_steps]) (use assms in simp_all)

lemma grown_trans:
  assumes "grown W history s t" and "grown W history t u"
  shows "grown W history s u"
proof -
  from assms obtain xs ys where
    "history (rl_wal t) = history (rl_wal s) @ xs"
    "\<forall>i \<in> set xs. wal_open_chunk_id W (rl_wal s) \<le> fst (snd i)"
    "history (rl_wal u) = history (rl_wal t) @ ys"
    "\<forall>i \<in> set ys. wal_open_chunk_id W (rl_wal t) \<le> fst (snd i)"
    unfolding grown_def by blast
  moreover from assms have "wal_open_chunk_id W (rl_wal s) \<le> wal_open_chunk_id W (rl_wal t)"
    by (simp add: grown_def)
  ultimately show ?thesis using assms unfolding grown_def by fastforce
qed

lemma small_step_grown:
  assumes "small_step T A W rec_at readable closed wal_ok history s s'"
    and inv: "rl_inv T W rec_at readable closed wal_ok s"
  shows "grown W history s s'"
proof -
  have ok: "wal_ok (rl_wal s)" using inv by (simp add: rl_inv_def)
  show ?thesis
    using assms(1)
  proof cases
    case (ss_refused r res w)
    with append_law [OF ok ss_refused(2)] history_append [OF ok ss_refused(2)]
    show ?thesis by (simp add: grown_def)
  next
    case (ss_stored r w)
    with append_law [OF ok ss_stored(4)] history_append [OF ok ss_stored(4)]
    show ?thesis by (simp add: grown_def)
  next
    case (ss_closing did w)
    with history_close [OF ok ss_closing(2)] close_law [OF ok ss_closing(2)]
    show ?thesis by (auto simp: grown_def)
  next
    case ss_retired
    show ?thesis
    proof (cases "st_purged (log_state s)")
      case (Some p)
      obtain ids w where drain: "wal_drain_closed W (rl_wal s) (\<lambda>k. st_last k \<le> Some p) = (ids, w)"
        by fastforce
      with drain_law [OF ok drain] history_drain [OF ok drain] Some ss_retired show ?thesis
        by (simp add: grown_def buffer_removable_chunks_def)
    qed (use ss_retired in \<open>simp add: grown_def buffer_removable_chunks_def\<close>)
  next
    case (ss_sent sync cb r w)
    with send_pending_law [OF ok ss_sent(2)] history_pending [OF ok ss_sent(2)]
    show ?thesis by (simp add: grown_def)
  next
    case (ss_removed r w)
    with send_remove_law [OF ok ss_removed(2)] history_remove [OF ok ss_removed(2)]
    show ?thesis by (simp add: grown_def)
  qed (simp_all add: grown_def)
qed

lemma small_steps_grown:
  assumes "small_steps T A history s s'" and "rl_inv T W rec_at readable closed wal_ok s"
  shows "grown W history s s'"
  using assms
proof (induction rule: rtranclp_induct)
  case base
  show ?case by (simp add: grown_def)
next
  case (step t u)
  then show ?case using small_steps_inv [OF step.hyps(1)] by (blast intro: grown_trans small_step_grown)
qed

end

lemma fresh_recorded:
  fixes history :: "'w \<Rightarrow> ('l::linorder, 'p, 'v::order, 'u, 'c::linorder, 'g) written"
  assumes "history w = [(Checkpoint default_state, c, g)]" and "closed w = []"
    and adm: "admits_user_data A"
  shows "recorded T A rec_at closed history
     \<lparr>rl_config = cfg, rl_wal = w, rl_sm = sm_new cfg, rl_removed = [], rl_access = a\<rparr>"
proof -
  let ?new = "sm_new cfg :: ('l, 'p, 'v, 'u, 'c, 'g) state_machine"
  have parts: "sm_log ?new = []" "sm_state ?new = default_state" by (simp_all add: sm_new_def)
  have empty: "replays T cfg [] ?new" by (simp add: replays_def parts logged_in_def sm_new_inv)
  then have built: "rebuilt T A cfg ([] :: ('l, 'p, 'v, 'u, 'c, 'g) written)" by (auto simp: rebuilt_def)
  have fits: "record_fits T ?new (Checkpoint default_state)" "sm_check T ?new (Checkpoint default_state) = Ok ()"
    by (simp_all add: checkpoint_point_def sm_check_def parts default_state_def)
  have "A default_state default_state" by (rule admits_same [OF adm])
  then have "rebuilt T A cfg (history w)"
    using rebuilt_snoc [OF built empty fits] parts assms(1) by simp
  moreover have "replays T cfg (history w) (snd (sm_apply T ?new (Checkpoint default_state) c g))"
    using replays_snoc [OF empty fits] assms(1) by simp
  moreover have "snd (sm_apply T ?new (Checkpoint default_state) c g) = ?new"
    by (simp add: sm_apply_def state_apply_def sm_new_def)
  ultimately show ?thesis
    using assms(1,2) parts
    by (auto simp: recorded_def log_holds_def play_def effect_of_def intro!: exI [of _ ?new])
qed

end
