(* ===== verification/Reopen.thy ===== *)
theory Reopen imports Crash_Recovery
begin

text \<open>
  Opening a store on the files that are left: what the replay puts into the log map and the
  cache, that the opened store satisfies the invariant of \<open>Raft_Store\<close>, and what is replayed
  after a crash that has lost the end of what was written.
\<close>

section \<open>What a replay leaves\<close>

text \<open>Every entry of the map comes from an append record at the entry's place, and a payload that
  is cached for it is the payload of that record.\<close>

definition from_records ::
  "('l::linorder, 'p, 'v) raft_types \<Rightarrow> (('l, 'p, 'v, 'u) raft_record \<times> 'c \<times> 'g) set
     \<Rightarrow> ('l, 'p, 'v, 'u, 'c, 'g) state_machine \<Rightarrow> bool" where
  "from_records T R sm \<longleftrightarrow>
     cache_wf (sm_cache sm)
     \<and> (\<forall>e \<in> set (sm_log sm). fst e = log_index T (entry_id e)
          \<and> (\<exists>p. (Action (Append (entry_id e) p), ld_chunk_id (snd e), ld_segment (snd e)) \<in> R
                \<and> cache_get (sm_cache sm) (entry_id e) \<in> {None, Some p}))"

lemma from_records_subset:
  assumes "from_records T R sm" and "set (sm_log sm') \<subseteq> set (sm_log sm)"
    and "cache_wf (sm_cache sm')"
    and "\<And>k q. cache_get (sm_cache sm') k = Some q \<Longrightarrow> cache_get (sm_cache sm) k = Some q"
  shows "from_records T R sm'"
  unfolding from_records_def
proof (intro conjI ballI)
  fix e assume "e \<in> set (sm_log sm')"
  with assms(2) have e: "e \<in> set (sm_log sm)" by blast
  with assms(1) obtain p where p: "(Action (Append (entry_id e) p), ld_chunk_id (snd e), ld_segment (snd e)) \<in> R"
    "cache_get (sm_cache sm) (entry_id e) \<in> {None, Some p}" by (auto simp: from_records_def)
  from p(2) assms(4) [of "entry_id e"] have "cache_get (sm_cache sm') (entry_id e) \<in> {None, Some p}"
    by (cases "cache_get (sm_cache sm') (entry_id e)") auto
  with p(1) show "\<exists>p. (Action (Append (entry_id e) p), ld_chunk_id (snd e), ld_segment (snd e)) \<in> R
      \<and> cache_get (sm_cache sm') (entry_id e) \<in> {None, Some p}" by blast
  show "fst e = log_index T (entry_id e)" using assms(1) e by (simp add: from_records_def)
qed (rule assms(3))

lemma bt_insert_replaces:
  "bt_wf m \<Longrightarrow> e \<in> set (bt_insert k v m) \<Longrightarrow> e = (k, v) \<or> e \<in> set m \<and> fst e \<noteq> k"
  by (induction m) (auto simp: btree_simps split: if_splits)

lemma from_records_append:
  assumes inv: "from_records T R sm" and wf: "bt_wf (sm_log sm)"
  shows "from_records T (insert (Action (Append l p), c, g) R) (sm_touch T sm (Action (Append l p)) c g)"
  unfolding from_records_def
proof (intro conjI ballI)
  let ?sm = "sm_touch T sm (Action (Append l p)) c g"
  have cwf: "cache_wf (sm_cache sm)" using inv by (simp add: from_records_def)
  then show "cache_wf (sm_cache ?sm)" by simp
  fix e assume "e \<in> set (sm_log ?sm)"
  then consider "e = (log_index T l, \<lparr>ld_log_id = l, ld_chunk_id = c, ld_segment = g\<rparr>)"
    | "e \<in> set (sm_log sm)" "fst e \<noteq> log_index T l"
    using bt_insert_replaces [OF wf, of e "log_index T l"
        "\<lparr>ld_log_id = l, ld_chunk_id = c, ld_segment = g\<rparr>"] by auto
  then have "fst e = log_index T (entry_id e)
      \<and> (\<exists>q. (Action (Append (entry_id e) q), ld_chunk_id (snd e), ld_segment (snd e))
                \<in> insert (Action (Append l p), c, g) R
            \<and> cache_get (sm_cache ?sm) (entry_id e) \<in> {None, Some q})"
  proof cases
    case 1
    then show ?thesis
      using get_insert_imp [OF cwf, of T l p l] by (cases "cache_get (sm_cache ?sm) l") auto
  next
    case 2
    then obtain q where q: "fst e = log_index T (entry_id e)"
      "(Action (Append (entry_id e) q), ld_chunk_id (snd e), ld_segment (snd e)) \<in> R"
      "cache_get (sm_cache sm) (entry_id e) \<in> {None, Some q}"
      using inv by (auto simp: from_records_def)
    then have "entry_id e \<noteq> l" using 2(2) by auto
    then have "cache_get (sm_cache ?sm) (entry_id e) \<in> {None, Some q}"
      using get_insert_imp [OF cwf, of T l p "entry_id e"] q(3)
      by (cases "cache_get (sm_cache ?sm) (entry_id e)") auto
    with q show ?thesis by blast
  qed
  then show "fst e = log_index T (entry_id e)"
    and "\<exists>q. (Action (Append (entry_id e) q), ld_chunk_id (snd e), ld_segment (snd e))
                \<in> insert (Action (Append l p), c, g) R
            \<and> cache_get (sm_cache ?sm) (entry_id e) \<in> {None, Some q}" by blast+
qed

lemma from_records_mono: "from_records T R sm \<Longrightarrow> R \<subseteq> S \<Longrightarrow> from_records T S sm"
  unfolding from_records_def by fastforce

lemma from_records_touch:
  assumes inv: "from_records T R sm" and wf: "bt_wf (sm_log sm)"
  shows "from_records T (insert (rec, c, g) R) (sm_touch T sm rec c g)
    \<and> bt_wf (sm_log (sm_touch T sm rec c g))"
proof (cases "\<exists>l p. rec = Action (Append l p)")
  case True
  then show ?thesis using from_records_append [OF inv wf] wf by (auto simp: bt_wf_insert)
next
  case False
  have cwf: "cache_wf (sm_cache sm)" using inv by (simp add: from_records_def)
  have "from_records T R (sm_touch T sm rec c g)"
  proof (rule from_records_subset [OF inv])
    show "set (sm_log (sm_touch T sm rec c g)) \<subseteq> set (sm_log sm)"
      using False by (cases "(T, sm, rec, c, g)" rule: sm_touch.cases)
        (auto simp: Let_def bt_split_off_def bt_below_def bt_from_def)
    show "cache_wf (sm_cache (sm_touch T sm rec c g))"
      using cwf by (cases "(T, sm, rec, c, g)" rule: sm_touch.cases) (auto simp: Let_def split: option.split)
    show "cache_get (sm_cache (sm_touch T sm rec c g)) k = Some q \<Longrightarrow> cache_get (sm_cache sm) k = Some q" for k q
      using False cwf by (cases "(T, sm, rec, c, g)" rule: sm_touch.cases)
        (auto simp: Let_def get_truncate get_purge get_clear split: option.splits if_splits)
  qed
  moreover have "bt_wf (sm_log (sm_touch T sm rec c g))"
    using False wf by (cases "(T, sm, rec, c, g)" rule: sm_touch.cases) (auto simp: Let_def bt_split_off_def)
  ultimately show ?thesis using from_records_mono by blast
qed

lemma from_records_frame:
  "sm_log sm' = sm_log sm \<Longrightarrow> sm_cache sm' = sm_cache sm \<Longrightarrow> from_records T R sm' = from_records T R sm"
  by (simp add: from_records_def)

lemma replay_from_records:
  assumes "sm_replay T sm recs = (r, sm')" and "from_records T R sm" and "bt_wf (sm_log sm)"
  shows "from_records T (R \<union> set recs) sm'"
  using assms
proof (induction recs arbitrary: sm R)
  case (Cons i recs)
  obtain rec c g where i: "i = (rec, c, g)" by (cases i)
  obtain r1 sm1 where one: "sm_apply T sm rec c g = (r1, sm1)" by fastforce
  have same: "sm_log sm1 = sm_log (sm_touch T sm rec c g)" "sm_cache sm1 = sm_cache (sm_touch T sm rec c g)"
    using one by (auto simp: sm_apply_def Let_def)
  have inv1: "from_records T (insert i R) sm1" and wf1: "bt_wf (sm_log sm1)"
    using from_records_touch [OF Cons.prems(2,3), of rec c g] same i
    by (simp_all add: from_records_frame [OF same])
  show ?case
  proof (cases r1)
    case (Ok u)
    then have "sm_replay T sm1 recs = (r, sm')" using Cons.prems(1) i one by simp
    from Cons.IH [OF this inv1 wf1] show ?thesis by simp
  next
    case (Err e)
    then have "sm' = sm1" using Cons.prems(1) i one by simp
    then show ?thesis using from_records_mono [OF inv1] by auto
  next
    case Panic
    then have "sm' = sm1" using Cons.prems(1) i one by simp
    then show ?thesis using from_records_mono [OF inv1] by auto
  qed
qed simp

section \<open>The opened store\<close>

lemma opened_store:
  fixes recs :: "('l::linorder, 'p, 'v::order, 'u, 'c::linorder, 'g) written"
  assumes laws: "raft_wal W rec_at readable closed wal_ok" and ok: "wal_ok w"
    and opened: "wal_open (cfg_wal cfg) (sm_new cfg) = (Ok w, sm)"
    and replay: "sm_replay T (sm_new cfg) recs = (Ok (), sm)" and inv: "sm_inv T sm"
    and stored: "\<forall>(rec, c, g) \<in> set recs. rec_at w c g = Some rec \<and> readable w c"
    and covered: "\<forall>(c, k) \<in> set (closed w). \<forall>e \<in> set (sm_log sm).
       ld_chunk_id (snd e) = c \<longrightarrow> Some (entry_id e) \<le> st_last k"
  shows "\<exists>s. rl_open wal_open W cfg = Ok s \<and> rl_inv T W rec_at readable closed wal_ok s
     \<and> rl_sm s = sm \<and> (\<forall>es. logged_in recs sm es \<longrightarrow> log_holds rec_at s es)"
proof -
  let ?s = "\<lparr>rl_config = cfg, rl_wal = w, rl_sm = sm, rl_removed = [],
      rl_access = \<lparr>cache_hit = 0, cache_miss = 0\<rparr>\<rparr>"
  have "from_records T {} (sm_new cfg :: ('l, 'p, 'v, 'u, 'c, 'g) state_machine)"
    by (simp add: from_records_def sm_new_def cache_new_def cache_wf_def)
  from replay_from_records [OF replay this] have from_recs: "from_records T (set recs) sm"
    by (simp add: sm_new_def)
  have "entry_ok rec_at readable closed [] w (sm_cache sm) (snd e)" if e: "e \<in> set (sm_log sm)" for e
  proof -
    obtain p where p: "(Action (Append (entry_id e) p), ld_chunk_id (snd e), ld_segment (snd e)) \<in> set recs"
      "cache_get (sm_cache sm) (entry_id e) \<in> {None, Some p}"
      using from_recs e by (auto simp: from_records_def)
    with stored have "placed rec_at w (snd e) p" "readable w (ld_chunk_id (snd e))"
      by (auto simp: placed_def)
    moreover have "Some (entry_id e) \<le> st_last k" if "(ld_chunk_id (snd e), k) \<in> set (closed w)" for k
      using covered e that by fastforce
    ultimately show ?thesis using p(2) unfolding entry_ok_def by auto
  qed
  then have inv_s: "rl_inv T W rec_at readable closed wal_ok ?s"
    using ok inv from_recs by (simp add: rl_inv_def from_records_def)
  have "log_holds rec_at ?s es" if "logged_in recs sm es" for es
    using that stored unfolding log_holds_def logged_in_def
    by (simp add: placed_def) (erule list_all2_mono, auto)
  then show ?thesis
    using raft_wal.inv_buffer [OF laws inv_s] by (auto simp: rl_open_def opened)
qed

text \<open>The abstract log of a store is determined by it.\<close>

lemma holds_unique: "log_holds rec_at s es \<Longrightarrow> log_holds rec_at s es' \<Longrightarrow> es = es'"
  unfolding log_holds_def
  by (rule nth_equalityI)
    (auto simp: list_all2_conv_all_nth placed_def prod_eq_iff)

lemma recorded_play:
  assumes "recorded T A rec_at closed history s" and "log_holds rec_at s es"
  shows "play (history (rl_wal s)) = (log_state s, es)"
proof -
  have "log_holds rec_at s (snd (play (history (rl_wal s))))" using assms(1) by (simp add: recorded_def)
  from holds_unique [OF this assms(2)] recorded_state [OF assms(1)] show ?thesis
    by (simp add: prod_eq_iff)
qed

section \<open>After a crash\<close>

text \<open>
  Of the chunks that were set aside before the flush, those up to some chunk may be gone; of
  the records written since the flush, the last ones may be lost.
\<close>

definition left_on_disk ::
  "'c option \<Rightarrow> ('l, 'p, 'v, 'u, 'c::linorder, 'g) written \<Rightarrow> ('l, 'p, 'v, 'u, 'c, 'g) written" where
  "left_on_disk gone h = filter (\<lambda>i. gone < Some (fst (snd i))) h"

lemma replayed_left:
  assumes built: "rebuilt T A cfg h" and m: "replays T cfg h m"
    and gone: "\<And>c. gone = Some c \<Longrightarrow> \<exists>k. cut_at h c k \<and> st_last k \<le> st_purged (sm_state m)"
  shows "\<exists>res. sm_replay T (sm_new cfg) (left_on_disk gone h) = (Ok (), res) \<and> sm_inv T res
     \<and> sm_state res = fst (play h) \<and> logged_in (left_on_disk gone h) res (snd (play h))"
proof -
  have mm: "sm_replay T (sm_new cfg) h = (Ok (), m)" "sm_inv T m" "sm_state m = fst (play h)"
    "logged_in h m (snd (play h))" using m by (simp_all add: replays_def)
  have "\<exists>res. sm_replay T (sm_new cfg) (left_on_disk gone h) = (Ok (), res)
      \<and> sm_state res = sm_state m \<and> sm_log res = sm_log m"
  proof (cases gone)
    case None
    with mm(1) show ?thesis by (simp add: left_on_disk_def)
  next
    case (Some c)
    with gone obtain k where "cut_at h c k" "st_last k \<le> st_purged (sm_state m)" by blast
    from cut_replay [OF built m this] Some show ?thesis by (simp add: left_on_disk_def)
  qed
  then obtain res where res: "sm_replay T (sm_new cfg) (left_on_disk gone h) = (Ok (), res)"
    "sm_state res = sm_state m" "sm_log res = sm_log m" by blast
  have "from_records T (set (left_on_disk gone h)) res"
    using replay_from_records [OF res(1), of "{}"]
    by (simp add: from_records_def sm_new_def cache_new_def cache_wf_def)
  then have "gone < Some (ld_chunk_id (snd e))" if "e \<in> set (sm_log res)" for e
    using that by (fastforce simp: from_records_def left_on_disk_def)
  with mm(4) have "logged_in (left_on_disk gone h) res (snd (play h))"
    unfolding logged_in_def res(3) [symmetric] left_on_disk_def
    by (auto simp: list_all2_conv_all_nth)
  with res mm same_parts(3) [OF res(3,2)] show ?thesis by auto
qed

context recorded_wal
begin

lemma crash_prefix:
  assumes good: "good T A s1" and steps: "small_steps T A history s1 s2"
    and adm: "admits_user_data A" and keeps: "keeps_purge A"
    and disk: "history (rl_wal s2) = disk @ lost"
    and synced: "length (history (rl_wal s1)) \<le> length disk"
    and gone: "\<And>c. gone = Some c \<Longrightarrow> c \<in> set (rl_removed s1)"
  obtains m where
    "sm_replay T (sm_new (rl_config s1)) (left_on_disk gone disk) = (Ok (), m)" and "sm_inv T m"
    and "sm_state m = fst (play disk)" and "logged_in (left_on_disk gone disk) m (snd (play disk))"
    and "(accepted T A)\<^sup>*\<^sup>* (play (history (rl_wal s1))) (play disk)"
    and "(accepted T A)\<^sup>*\<^sup>* (play disk) (play (history (rl_wal s2)))"
proof -
  have inv1: "rl_inv T W rec_at readable closed wal_ok s1" using good by simp
  have rec2: "recorded T A rec_at closed history s2"
    using small_steps_recorded [OF steps good adm keeps] by simp
  from small_steps_grown [OF steps inv1] obtain later where
    cfg: "rl_config s2 = rl_config s1" and later: "history (rl_wal s2) = history (rl_wal s1) @ later"
    "\<forall>i \<in> set later. wal_open_chunk_id W (rl_wal s1) \<le> fst (snd i)" by (auto simp: grown_def)
  have "take (length (history (rl_wal s1))) (disk @ lost) = history (rl_wal s1)"
    using later(1) disk by simp
  then have "take (length (history (rl_wal s1))) disk = history (rl_wal s1)" using synced by simp
  then obtain since where since: "disk = history (rl_wal s1) @ since" by (metis append_take_drop_id)
  with later(1) disk have since: "disk = history (rl_wal s1) @ since" "later = since @ lost" by simp_all
  have built2: "rebuilt T A (rl_config s1) (disk @ lost)"
    using rec2 disk cfg by (simp add: recorded_def)
  then have built: "rebuilt T A (rl_config s1) disk" by (rule rebuilt_prefix)
  obtain m where m: "replays T (rl_config s1) disk m" by (rule rebuilt_replays [OF built])
  have first: "(accepted T A)\<^sup>*\<^sup>* (play (history (rl_wal s1))) (play disk)"
    using rebuilt_accepted [of T A "rl_config s1" "history (rl_wal s1)" since] built since(1) by simp
  have "\<exists>k. cut_at disk c k \<and> st_last k \<le> st_purged (sm_state m)" if "gone = Some c" for c
  proof -
    have c: "c \<in> set (rl_removed s1)" by (rule gone [OF that])
    with good obtain k where k: "cut_at (history (rl_wal s1)) c k" "st_last k \<le> st_purged (log_state s1)"
      unfolding recorded_def by blast
    have "c < wal_open_chunk_id W (rl_wal s1)" using inv1 c by (simp add: rl_inv_def)
    then have "\<forall>i \<in> set since. c < fst (snd i)"
      using later(2) since(2) by (auto intro: order.strict_trans2)
    from cut_at_more [OF k(1) this] since(1) have "cut_at disk c k" by simp
    moreover have "log_state s1 = fst (play (history (rl_wal s1)))"
      using recorded_state good by blast
    then have "st_purged (log_state s1) \<le> st_purged (sm_state m)"
      using accepted_purge [OF keeps first] m by (simp add: replays_def)
    ultimately show ?thesis using k(2) by (blast intro: order_trans)
  qed
  from replayed_left [OF built m this] that first rebuilt_accepted [OF built2] disk show ?thesis by auto
qed

end

end
