(* ===== verification/Recovery.thy ===== *)
theory Recovery imports Reopen
begin

text \<open>
  Opening a store on an existing WAL (\<open>RaftLog::open\<close>): what the replay leaves in the log map
  and the cache, and that the opened store satisfies the invariant of \<open>Raft_Store\<close>, so that
  everything proved of running stores holds from there on. The last section is the run that
  ends with an entry neither cached nor on disk.
\<close>

section \<open>The opened store\<close>


definition two_entries_records :: "(test_record \<times> nat \<times> nat) list" where
  "two_entries_records =
     [(Checkpoint default_state, 0, 0), (Action (Append (1, 0) ''hi''), 0, 1),
      (Action (Append (1, 1) ''hello''), 0, 2)]"


text \<open>C16: Safety. Chunks left over by a purge whose removal never ran are found again: opening
  accounts for every closed chunk of the WAL, sets aside only chunks that end at or below the
  replayed purge position, and keeps listed only chunks from the first one on that ends above
  it.\<close>

theorem open_finds_leftovers:
  fixes sm :: "('l::linorder, 'p, 'v::order, 'u, 'c::linorder, 'g) state_machine"
  assumes laws: "raft_wal W rec_at readable closed wal_ok" and ok: "wal_ok w"
    and opened: "wal_open (cfg_wal cfg) (sm_new cfg) = (Ok w, sm)"
  shows "\<exists>s. rl_open wal_open W cfg = Ok s \<and> log_state s = sm_state sm
     \<and> chunks_of closed s = fst ` set (closed w)
     \<and> (\<forall>c \<in> set (rl_removed s). \<exists>k. (c, k) \<in> set (closed w) \<and> st_last k \<le> st_purged (sm_state sm))
     \<and> (\<forall>ck rest. st_purged (sm_state sm) \<noteq> None \<and> closed (rl_wal s) = ck # rest \<longrightarrow>
          st_purged (sm_state sm) < st_last (snd ck))"
proof -
  let ?s = "\<lparr>rl_config = cfg, rl_wal = w, rl_sm = sm, rl_removed = [],
      rl_access = \<lparr>cache_hit = 0, cache_miss = 0\<rparr>\<rparr>"
  let ?b = "buffer_removable_chunks W ?s"
  have wal: "chunked_wal W rec_at readable closed wal_ok" using laws by (simp add: raft_wal_def)
  have ok_s: "wal_ok (rl_wal ?s)" using ok by simp
  have "log_state ?b = sm_state sm"
    by (simp add: buffer_removable_chunks_def log_state_def Let_def split: option.split)
  moreover have "chunks_of closed ?b = fst ` set (closed w)"
    using raft_wal.buffer_conserves [OF laws ok_s] by (simp add: chunks_of_def)
  moreover have "\<exists>k. (c, k) \<in> set (closed w) \<and> st_last k \<le> st_purged (sm_state sm)"
    if c: "c \<in> set (rl_removed ?b)" for c
  proof (cases "st_purged (sm_state sm)")
    case None
    with c show ?thesis by (simp add: buffer_removable_chunks_def log_state_def)
  next
    case (Some p)
    obtain ids w' where drain: "wal_drain_closed W w (\<lambda>k. st_last k \<le> Some p) = (ids, w')" by fastforce
    with c Some have "c \<in> set ids" by (simp add: buffer_removable_chunks_def log_state_def)
    with chunked_wal.drained_ids [OF wal ok drain] Some show ?thesis by simp
  qed
  moreover have "st_purged (sm_state sm) < st_last (snd ck)"
    if "st_purged (sm_state sm) \<noteq> None" "closed (rl_wal ?b) = ck # rest" for ck rest
    using raft_wal.buffer_exact [OF laws ok_s _ that(2)] that(1) by (auto simp: log_state_def)
  moreover have "rl_open wal_open W cfg = Ok ?b" by (simp add: rl_open_def opened)
  ultimately show ?thesis by blast
qed

theorem open_finds_leftovers_witness:
  "\<exists>s. rl_open (\<lambda>_ sm. (Ok (rl_wal two_entries),
        sm\<lparr>sm_state := two_entries_state\<lparr>st_purged := Some (1, 1)\<rparr>\<rparr>))
       test_api (test_config None None) = Ok s \<and> chunks_of mw_closed s = {0} \<and> mw_closed (rl_wal s) = []"
proof -
  let ?open = "\<lambda>_ sm. (Ok (rl_wal two_entries) :: (test_wal, io_error) outcome,
        sm\<lparr>sm_state := two_entries_state\<lparr>st_purged := Some (1, 1)\<rparr>\<rparr>)"
  let ?cfg = "test_config None None"
  have "mem_ok (rl_wal two_entries)" using two_entries_inv by (simp add: rl_inv_def)
  from open_finds_leftovers [where wal_open = ?open and cfg = ?cfg, OF tw.raft_wal_axioms this refl]
  obtain s where s: "rl_open ?open test_api ?cfg = Ok s" "chunks_of mw_closed s = {0}"
    by (auto simp: run_simps)
  moreover from s(1) have "mw_closed (rl_wal s) = []"
    by (auto simp: rl_open_def run_simps two_entries_state_def)
  ultimately show ?thesis by blast
qed

section \<open>Restart\<close>

definition mem_recorded :: "('r, 'k) mem_wal \<Rightarrow> bool" where
  "mem_recorded w \<longleftrightarrow> mem_ok w \<and> (\<forall>i \<in> set (mw_history w). fst (snd i) \<le> mw_open_id w)"

interpretation rec: recorded_wal test_api mem_rec_at mem_readable mw_closed mem_recorded mw_history
proof -
  have "chunked_wal test_api mem_rec_at mem_readable mw_closed
      (\<lambda>w. mem_ok w \<and> (\<forall>i \<in> set (mw_history w). fst (snd i) \<le> mw_open_id w))"
    by (rule chunked_wal_restrict [OF tw.chunked_wal_axioms])
      (auto simp: test_api_def mem_append_def mem_try_close_def mem_drain_def
        mem_send_pending_def mem_send_remove_def intro: trans_le_add1)
  then have "raft_wal test_api mem_rec_at mem_readable mw_closed mem_recorded"
    by (simp add: raft_wal_def mem_recorded_def [abs_def])
  then show "recorded_wal test_api mem_rec_at mem_readable mw_closed mem_recorded mw_history"
    by (rule recorded_wal.intro)
      (unfold_locales, auto simp: test_api_def mem_recorded_def mem_append_def mem_try_close_def
        mem_drain_def mem_send_pending_def mem_send_remove_def split: if_splits)
qed

lemma fresh_test_store:
  "recorded test_types never_back mem_rec_at mw_closed mw_history (test_store 3 items cap)"
  "rl_inv test_types test_api mem_rec_at mem_readable mw_closed mem_recorded (test_store 3 items cap)"
  unfolding test_store_def
  by (rule fresh_recorded, simp_all add: mem_new_def never_back_user_data)
    (rule fresh_inv, simp add: mem_recorded_def mem_new_def mem_ok_def)

lemma never_back_keeps: "keeps_purge never_back"
  by (simp add: keeps_purge_def never_back_def)



section \<open>A crash\<close>


text \<open>
  Two entries are appended, committed and purged, and this is flushed; of two more entries the
  crash loses the last one, and the chunk set aside by the purge is gone.
\<close>

definition purged_run :: "(test_id, string, u64 \<times> u64, string, test_wal, unit) store_op list" where
  "purged_run = [DoAppend [((1, 0), ''hi''), ((1, 1), ''hello'')], DoPurge (1, 1)]"

definition later_run :: "(test_id, string, u64 \<times> u64, string, test_wal, unit) store_op list" where
  "later_run = [DoAppend [((1, 2), ''x''), ((1, 3), ''y'')]]"

definition after_ops :: "test_store \<Rightarrow> (test_id, string, u64 \<times> u64, string, test_wal, unit) store_op list
    \<Rightarrow> test_store" where
  "after_ops s ops = foldl (\<lambda>s op. snd (run_op test_types test_api op s)) s ops"

definition crash_records :: "(test_record \<times> nat \<times> nat) list" where
  "crash_records =
     [(Checkpoint two_entries_state, 3, 0), (Action (PurgeUpto (1, 1)), 3, 1),
      (Action (Append (1, 2) ''x''), 3, 2)]"

definition crash_wal :: test_wal where
  "crash_wal =
     \<lparr>mw_max = 3, mw_closed = [(3, two_entries_state\<lparr>st_last := Some (1, 2), st_purged := Some (1, 1)\<rparr>)],
      mw_files = [(3, map fst crash_records)], mw_open_id = 6,
      mw_open = [Checkpoint (two_entries_state\<lparr>st_last := Some (1, 2), st_purged := Some (1, 1)\<rparr>)],
      mw_fail = False, mw_history = []\<rparr>"

definition purged_store :: test_store where
  "purged_store = after_ops (test_store 3 (Some 1) (Some 100)) purged_run"

lemma purged_store_run:
  "purged_store = two_entries
     \<lparr>rl_wal := (rl_wal two_entries)
        \<lparr>mw_closed := [], mw_open := [Checkpoint two_entries_state, Action (PurgeUpto (1, 1))],
         mw_history := mw_history (rl_wal two_entries) @ [(Action (PurgeUpto (1, 1)), 3, 1)]\<rparr>,
      rl_sm := (rl_sm two_entries)
        \<lparr>sm_log := [], sm_state := two_entries_state\<lparr>st_purged := Some (1, 1)\<rparr>\<rparr>,
      rl_removed := [0]\<rparr>"
  by (simp add: purged_store_def after_ops_def purged_run_def run_simps two_entries_state_def
      quiet_def Let_def cong: sbind_first)

lemmas crash_runs = after_ops_def purged_run_def later_run_def run_simps two_entries_state_def
  quiet_def Let_def appendable_def purgeable_def purge_point_def evictable_def

text \<open>What the store of the reference WAL promises of such runs.\<close>

abbreviation runs_fit where
  "runs_fit \<equiv> along (\<lambda>s op. snd (run_op test_types test_api op s))
     (\<lambda>s op. op_fits test_types test_api mem_rec_at mem_readable mw_closed mem_recorded s op
        \<and> op_plain never_back mw_history s op)"

lemma crash_run_fits:
  "runs_fit (test_store 3 (Some 1) (Some 100)) purged_run" "runs_fit purged_store later_run"
  by (simp add: crash_runs cong: sbind_first)
    (simp add: purged_store_run crash_runs cong: sbind_first)

lemma crash_run_ends:
  "log_holds mem_rec_at (after_ops purged_store later_run) [((1, 2), ''x''), ((1, 3), ''y'')]"
  "\<exists>lost. mw_history (rl_wal (after_ops purged_store later_run)) =
     (mw_history (rl_wal purged_store) @ [(Action (Append (1, 2) ''x''), 3, 2)]) @ lost"
  by (simp_all add: purged_store_run crash_runs log_holds_def placed_def cong: sbind_first)


section \<open>An entry that is nowhere\<close>

definition flushed_three :: test_store where
  "flushed_three = worker_callback (Some (default_state\<lparr>st_last := Some (3, 2)\<rparr>))
     (snd (rl_append test_types test_api [((1, 0), ''a''), ((3, 1), ''b''), ((3, 2), ''c'')]
        (test_store 4 (Some 0) (Some 100))))"

definition overwritten :: test_store where
  "overwritten = snd (rl_append test_types test_api [((2, 1), ''x'')]
     (snd (rl_truncate test_types test_api 1 flushed_three)))"


end
