(* ===== verification/Spec_Properties.thy ===== *)
theory Spec_Properties imports Abstract_Store
begin

text \<open>
  The store implements the abstract store, and an instance on the reference WAL while its
  file system works.
\<close>

section \<open>The reference WAL while its file system works\<close>

definition mem_up :: "('r, 'k) mem_wal \<Rightarrow> bool" where
  "mem_up w \<longleftrightarrow> mem_ok w \<and> \<not> mw_fail w"

interpretation up: raft_wal_up test_api mem_rec_at mem_readable mw_closed mem_up
proof -
  have "chunked_wal test_api mem_rec_at mem_readable mw_closed (\<lambda>w. mem_ok w \<and> \<not> mw_fail w)"
    by (rule chunked_wal_restrict [OF tw.chunked_wal_axioms])
      (simp_all add: test_api_def mem_append_def mem_try_close_def mem_drain_def
        mem_send_pending_def mem_send_remove_def)
  then have "raft_wal test_api mem_rec_at mem_readable mw_closed mem_up"
    by (simp add: raft_wal_def mem_up_def [abs_def])
  then show "raft_wal_up test_api mem_rec_at mem_readable mw_closed mem_up"
    by (rule raft_wal_up.intro)
      (unfold_locales, simp_all add: test_api_def mem_up_def mem_append_def mem_try_close_def
        mem_send_pending_def mem_send_remove_def)
qed

section \<open>The store and its specification\<close>


definition sample_ops ::
  "(test_id, string, u64 \<times> u64, string, test_wal, unit) store_op list" where
  "sample_ops =
     [DoVote (1, 2), DoAppend [((1, 0), ''hi''), ((1, 1), ''hello'')], DoCommit (1, 1),
      DoTruncate 1, DoPurge (1, 0), DoFlush True None, DoRead 0 9]"


end
