(* ===== verification/Client_Runs.thy ===== *)
theory Client_Runs imports Sample_Runs
begin

text \<open>
  How a client uses the store: \<open>blocking_flush\<close> of \<open>src/api/raft_log_writer.rs\<close> and the
  program \<open>examples/basic_usage.rs\<close>.

  Both hand a channel to \<open>flush\<close> as its callback and wait on the other end. While they wait
  the flush worker goes on: \<open>wait\<close> is a parameter that gives the answer received and the
  store as the worker left it, and \<open>worker_run\<close> says what the worker may have done to it.
\<close>

section \<open>Waiting for the flush worker\<close>

text \<open>\<open>rx.recv()\<close>: the result that was sent, or the sender was dropped without sending.\<close>

datatype flush_answer = Completed | Failed io_error | Dropped

type_synonym 's waiting = "'s \<Rightarrow> flush_answer \<times> 's"

definition recv_error :: io_error where
  "recv_error = IoError OtherKind ''Failed to receive flush completion''"

text \<open>\<open>rx.recv().unwrap()?\<close>, as the programs write it.\<close>

fun recv_unwrap :: "flush_answer \<times> 's \<Rightarrow> (unit, 's) call" where
  "recv_unwrap (Completed, s) = (Ok (), s)"
| "recv_unwrap (Failed e, s) = (Err e, s)"
| "recv_unwrap (Dropped, s) = (Panic, s)"

lemma recv_unwrap_Ok: "recv_unwrap m = (Ok u, s') \<longleftrightarrow> m = (Completed, s')"
  by (cases m rule: recv_unwrap.cases) auto

definition blocking_flush ::
  "('l, 'p, 'v, 'u, 'w, 'c, 'g, 'cb) raft_wal \<Rightarrow> 'cb
     \<Rightarrow> ('l, 'p, 'v, 'u, 'w, 'c, 'g, 'wc) raft_log waiting
     \<Rightarrow> ('l, 'p, 'v, 'u, 'w, 'c, 'g, 'wc) raft_log
     \<Rightarrow> (unit, ('l, 'p, 'v, 'u, 'w, 'c, 'g, 'wc) raft_log) call" where
  "blocking_flush W tx wait rl =
     sbind (rl_flush W True (Some tx) rl) (\<lambda>_ rl.
       case wait rl of
         (Completed, rl) \<Rightarrow> (Ok (), rl)
       | (Failed e, rl) \<Rightarrow> (Err e, rl)
       | (Dropped, rl) \<Rightarrow> (Err recv_error, rl))"

text \<open>What the flush worker does to a store between two calls.\<close>

inductive worker_step ::
  "('l::linorder, 'p, 'v, 'u, 'w, 'c::linorder, 'g, 'cb) raft_wal
     \<Rightarrow> ('w \<Rightarrow> 'c \<Rightarrow> 'g \<Rightarrow> ('l, 'p, 'v, 'u) raft_record option) \<Rightarrow> ('w \<Rightarrow> 'c \<Rightarrow> bool)
     \<Rightarrow> ('w \<Rightarrow> ('c \<times> ('l, 'v, 'u) raft_log_state) list) \<Rightarrow> ('w \<Rightarrow> bool)
     \<Rightarrow> ('l, 'p, 'v, 'u, 'w, 'c, 'g, 'wc) raft_log
     \<Rightarrow> ('l, 'p, 'v, 'u, 'w, 'c, 'g, 'wc) raft_log \<Rightarrow> bool"
  for W rec_at readable closed wal_ok where
  worker_wal:
    "wal_ok w \<Longrightarrow> wal_extends rec_at readable {} (rl_wal s) w \<Longrightarrow>
       closed w = closed (rl_wal s) \<Longrightarrow> wal_open_chunk_id W w = wal_open_chunk_id W (rl_wal s) \<Longrightarrow>
       worker_step W rec_at readable closed wal_ok s (s\<lparr>rl_wal := w\<rparr>)"
| worker_persisted:
    "persisted_upto readable s ck \<Longrightarrow>
       worker_step W rec_at readable closed wal_ok s (worker_callback ck s)"

definition waits_for_worker ::
  "('l::linorder, 'p, 'v, 'u, 'w, 'c::linorder, 'g, 'cb) raft_wal
     \<Rightarrow> ('w \<Rightarrow> 'c \<Rightarrow> 'g \<Rightarrow> ('l, 'p, 'v, 'u) raft_record option) \<Rightarrow> ('w \<Rightarrow> 'c \<Rightarrow> bool)
     \<Rightarrow> ('w \<Rightarrow> ('c \<times> ('l, 'v, 'u) raft_log_state) list) \<Rightarrow> ('w \<Rightarrow> bool)
     \<Rightarrow> ('l, 'p, 'v, 'u, 'w, 'c, 'g, 'wc) raft_log waiting \<Rightarrow> bool" where
  "waits_for_worker W rec_at readable closed wal_ok wait \<longleftrightarrow>
     (\<forall>s. (worker_step W rec_at readable closed wal_ok)\<^sup>*\<^sup>* s (snd (wait s)))"

section \<open>The usage example\<close>

text \<open>
  \<open>MyTypes\<close> has the same ids, payloads and methods as \<open>TestTypes\<close>. The program prints the
  entries it has read and the state; they are its result here. The iterator of \<open>read\<close> is lazy and
  \<open>collect\<close> stops at an error; \<open>rl_read\<close> has run it to its end, which only the access counters
  show.
\<close>

definition basic_usage ::
  "('wc \<Rightarrow> (test_id, string, u64 \<times> u64, string, 'c, 'g) state_machine
      \<Rightarrow> ('w, io_error) outcome \<times> (test_id, string, u64 \<times> u64, string, 'c, 'g) state_machine)
     \<Rightarrow> (test_id, string, u64 \<times> u64, string, 'w, 'c, 'g, 'cb) raft_wal \<Rightarrow> 'cb
     \<Rightarrow> (test_id, string, u64 \<times> u64, string, 'w, 'c, 'g, 'wc) raft_log waiting
     \<Rightarrow> (string \<Rightarrow> 'wc) \<Rightarrow> string
     \<Rightarrow> ((test_id \<times> string) list \<times> test_state, io_error) outcome" where
  "basic_usage wal_open W tx wait wal_config_new temp_dir =
     and_then (rl_open wal_open W (config_new wal_config_new temp_dir)) (\<lambda>raft_log. fst (
     sbind (save_vote test_types W (1, 2) raft_log) (\<lambda>_ raft_log.
     sbind (rl_append test_types W
       [((1, 1), ''first entry''), ((1, 2), ''second entry''), ((2, 3), ''third entry'')]
       raft_log) (\<lambda>_ raft_log.
     sbind (rl_commit test_types W (1, 2) raft_log) (\<lambda>_ raft_log.
     sbind (rl_flush W True (Some tx) raft_log) (\<lambda>_ raft_log.
     sbind (recv_unwrap (wait raft_log)) (\<lambda>_ raft_log.
     sbind (rl_read W 1 3 raft_log) (\<lambda>items raft_log.
     sbind (collect_results items, raft_log) (\<lambda>read_entries raft_log.
       (Ok (read_entries, log_state raft_log), raft_log))))))))))"

section \<open>What such runs leave\<close>

context raft_wal
begin

lemma worker_keeps:
  assumes "(worker_step W rec_at readable closed wal_ok)\<^sup>*\<^sup>* s s'"
    and "rl_inv T W rec_at readable closed wal_ok s" and "log_holds rec_at s es"
  shows "rl_inv T W rec_at readable closed wal_ok s' \<and> log_holds rec_at s' es
     \<and> log_state s' = log_state s"
  using assms(1)
proof (induction rule: rtranclp_induct)
  case base
  with assms(2,3) show ?case by simp
next
  case (step s1 s2)
  note inv = conjunct1 [OF step.IH] and holds = conjunct1 [OF conjunct2 [OF step.IH]]
  from step.hyps(2) show ?case
  proof cases
    case (worker_wal w)
    with inv_wal_same [OF inv worker_wal(2-5)] holds_wal [OF holds worker_wal(3)] step.IH
    show ?thesis by (simp add: log_state_def)
  next
    case (worker_persisted ck)
    have "rl_inv T W rec_at readable closed wal_ok s2"
      using persisted_follows [OF inv holds] worker_persisted by (simp add: follows_def)
    with step.IH worker_persisted(1) show ?thesis
      by (simp add: log_holds_def log_state_def worker_callback_def)
  qed
qed

lemma write_done:
  assumes inv: "rl_inv T W rec_at readable closed wal_ok s" and "log_holds rec_at s es"
    and fits: "write_fits T s rec" and run: "append_and_apply T W rec s = (Ok g, s')"
  shows "rl_inv T W rec_at readable closed wal_ok s' \<and> log_holds rec_at s' (log_effect rec es)
     \<and> log_state s' = state_effect (log_state s) rec
     \<and> pc_last_evictable (sm_cache (rl_sm s')) = pc_last_evictable (sm_cache (rl_sm s))"
  using write_inv [OF inv fits run] assms(2) by simp

lemma append_done:
  assumes "rl_inv T W rec_at readable closed wal_ok s" and "log_holds rec_at s es"
    and "\<forall>x \<in> set new. appendable T s (fst x)" and "rl_append T W new s = (Ok g, s')"
  shows "rl_inv T W rec_at readable closed wal_ok s' \<and> log_holds rec_at s' (es @ new)
     \<and> log_state s' = foldl (\<lambda>st x. st\<lparr>st_last := Some (fst x)\<rparr>) (log_state s) new
     \<and> pc_last_evictable (sm_cache (rl_sm s')) = pc_last_evictable (sm_cache (rl_sm s))"
  using assms
proof (induction new arbitrary: s es)
  case (Cons x new)
  obtain l p where x: "x = (l, p)" by (cases x)
  let ?rec = "Action (Append l p) :: ('l, 'p, 'v, 'u) raft_record"
  from Cons.prems(4) x obtain g1 s1 where one: "append_and_apply T W ?rec s = (Ok g1, s1)"
    and rest: "rl_append T W new s1 = (Ok g, s')" by (auto simp: sbind_Ok_iff)
  have "write_fits T s ?rec"
    using Cons.prems(3) x by (simp add: write_fits_def appendable_def)
  note first = write_done [OF Cons.prems(1,2) this one]
  then have "\<forall>x \<in> set new. appendable T s1 (fst x)"
    using Cons.prems(3) by (simp add: appendable_def evictable_def)
  from Cons.IH [of s1 "es @ [(l, p)]", OF _ _ this rest] first x show ?case by simp
qed simp

text \<open>A blocking flush leaves the log as it was, whatever it answers.\<close>

lemma blocking_flush_keeps:
  assumes waits: "waits_for_worker W rec_at readable closed wal_ok wait"
    and inv: "rl_inv T W rec_at readable closed wal_ok s" and holds: "log_holds rec_at s es"
    and run: "blocking_flush W tx wait s = (r, s')"
  shows "rl_inv T W rec_at readable closed wal_ok s' \<and> log_holds rec_at s' es
     \<and> log_state s' = log_state s"
proof -
  obtain r1 s1 where flush: "rl_flush W True (Some tx) s = (r1, s1)" by fastforce
  have flushed: "rl_inv T W rec_at readable closed wal_ok s1" "log_holds rec_at s1 es"
    "log_state s1 = log_state s"
    using flush_inv_holds [OF inv holds flush] flush_sm [OF flush] by (simp_all add: log_state_def)
  obtain answer s2 where wait: "wait s1 = (answer, s2)" by fastforce
  then have "(worker_step W rec_at readable closed wal_ok)\<^sup>*\<^sup>* s1 s2"
    using waits by (metis snd_conv waits_for_worker_def)
  from worker_keeps [OF this flushed(1,2)] flushed run flush wait show ?thesis
    by (cases r1; cases answer) (auto simp: blocking_flush_def)
qed

end

section \<open>What the example prints\<close>

lemma fst_Ok: "fst m = Ok a \<longleftrightarrow> (\<exists>s. m = (Ok a, s))"
  by (cases m) simp

lemma new_machine:
  "sm_state (sm_new cfg) = default_state"
  "pc_last_evictable (sm_cache (sm_new cfg)) = None"
  "sm_log (sm_new cfg) = []"
  by (simp_all add: sm_new_def cache_new_def)

text \<open>When the usage example on an empty directory ends without an error, it
  has read exactly the entries at the indexes 1 and 2, as they were appended, and the state it
  prints has the vote, the last appended id and the committed id that were written, whatever
  the flush worker did while the example waited for it.\<close>

theorem usage_example_reads:
  assumes laws: "raft_wal W rec_at readable closed wal_ok" and ok: "wal_ok w"
    and fresh: "\<And>cfg. wal_open cfg (sm_new (config_new wal_config_new dir)) =
       (Ok w, sm_new (config_new wal_config_new dir))"
    and waits: "waits_for_worker W rec_at readable closed wal_ok wait"
    and run: "basic_usage wal_open W tx wait wal_config_new dir = Ok (read_entries, state)"
  shows "read_entries = [((1, 1), ''first entry''), ((1, 2), ''second entry'')]
     \<and> state = \<lparr>st_vote = Some (1, 2), st_last = Some (2, 3), st_committed = Some (1, 2),
                 st_purged = None, st_user_data = None\<rparr>"
proof -
  let ?new = "[((1, 1), ''first entry''), ((1, 2), ''second entry''), ((2, 3), ''third entry'')]
    :: (test_id \<times> string) list"
  let ?inv = "rl_inv test_types W rec_at readable closed wal_ok"
  let ?cfg = "config_new wal_config_new dir"
  let ?s0 = "\<lparr>rl_config = ?cfg, rl_wal = w, rl_sm = sm_new ?cfg, rl_removed = [],
      rl_access = \<lparr>cache_hit = 0, cache_miss = 0\<rparr>\<rparr>"
  have "rl_open wal_open W ?cfg = Ok ?s0"
    by (simp add: rl_open_def fresh buffer_removable_chunks_def log_state_def new_machine default_state_def)
  with run obtain g1 s1 g2 s2 g3 s3 s4 s5 items s6 where
    vote: "append_and_apply test_types W (Action (SaveVote (1, 2))) ?s0 = (Ok g1, s1)" and
    app: "rl_append test_types W ?new s1 = (Ok g2, s2)" and
    commit: "append_and_apply test_types W (Action (Commit (1, 2))) s2 = (Ok g3, s3)" and
    flush: "rl_flush W True (Some tx) s3 = (Ok (), s4)" and wait: "wait s4 = (Completed, s5)" and
    items: "rl_read W 1 3 s5 = (Ok items, s6)" and
    res: "collect_results items = Ok read_entries" "state = log_state s6"
    unfolding basic_usage_def save_vote_def rl_commit_def
    by (auto simp: and_then_eq_Ok fst_Ok sbind_Ok_iff recv_unwrap_Ok simp del: rl_append.simps)
  have inv0: "?inv ?s0" by (rule fresh_inv) (rule ok)
  have holds0: "log_holds rec_at ?s0 []" by (simp add: log_holds_def new_machine)
  have "write_fits test_types ?s0 (Action (SaveVote (1, 2)))" by (simp add: write_fits_def)
  note s1 = raft_wal.write_done [OF laws inv0 holds0 this vote]
  have "\<forall>x \<in> set ?new. appendable test_types s1 (fst x)"
    using s1 by (simp add: appendable_def evictable_def new_machine)
  note s2 = raft_wal.append_done [OF laws _ _ this app, of "[]"]
  have "write_fits test_types s2 (Action (Commit (1, 2)))" by (simp add: write_fits_def)
  note s3 = raft_wal.write_done [OF laws _ _ this commit, of "?new"]
  have flushed: "?inv s3 \<Longrightarrow> log_holds rec_at s3 ?new \<Longrightarrow>
      ?inv s4 \<and> log_holds rec_at s4 ?new \<and> log_state s4 = log_state s3"
    using raft_wal.flush_inv_holds [OF laws _ _ flush] raft_wal.flush_sm [OF laws flush]
    by (simp add: log_state_def)
  have "(worker_step W rec_at readable closed wal_ok)\<^sup>*\<^sup>* s4 s5"
    using waits wait by (metis snd_conv waits_for_worker_def)
  note s5 = raft_wal.worker_keeps [OF laws this]
  have all: "?inv s5" "log_holds rec_at s5 ?new" "log_state s5 =
      \<lparr>st_vote = Some (1, 2), st_last = Some (2, 3), st_committed = Some (1, 2),
       st_purged = None, st_user_data = None\<rparr>"
    using s1 s2 s3 flushed s5 by (auto simp: log_state_def new_machine default_state_def)
  from raft_wal.read_ok [OF laws all(1,2), of 1 3] obtain a where
    "rl_read W 1 3 s5 = (Ok (map Ok [((1, 1), ''first entry''), ((1, 2), ''second entry'')]),
       s5\<lparr>rl_access := a\<rparr>)"
    by (auto simp: word_le_nat_alt word_less_nat_alt)
  with items res all(3) show ?thesis by (auto simp: log_state_def)
qed

theorem usage_example_reads_witness:
  "basic_usage (\<lambda>_ sm. (Ok (mem_new 5 [Checkpoint default_state]), sm)) test_api ()
       (\<lambda>s. (Completed, s)) (\<lambda>d. d) ''dir'' =
     Ok ([((1, 1), ''first entry''), ((1, 2), ''second entry'')],
         \<lparr>st_vote = Some (1, 2), st_last = Some (2, 3), st_committed = Some (1, 2),
          st_purged = None, st_user_data = None\<rparr>)"
proof -
  let ?open = "\<lambda>_ sm. (Ok (mem_new 5 [Checkpoint default_state]) :: (test_wal, io_error) outcome, sm)"
  let ?run = "basic_usage ?open test_api () (\<lambda>s. (Completed, s)) (\<lambda>d. d) ''dir''"
  have waits: "waits_for_worker test_api mem_rec_at mem_readable mw_closed mem_ok (\<lambda>s. (Completed, s))"
    by (simp add: waits_for_worker_def)
  have ok: "mem_ok (mem_new 5 [Checkpoint default_state] :: test_wal)" by simp
  have "is_ok ?run"
    by (simp add: basic_usage_def rl_open_def config_new_def buffer_run run_simps cong: sbind_first)
  then obtain es st where run: "?run = Ok (es, st)" by (auto simp: is_ok_conv)
  from usage_example_reads [OF tw.raft_wal_axioms ok refl waits this] run show ?thesis by simp
qed

end
