(* ===== verification/Concurrent_Read.thy ===== *)
theory Concurrent_Read imports Client_Runs Store_Steps
begin

text \<open>
  Reading while others use the store. The iterator of \<open>RaftLog::read\<close> holds a shared
  reference, so that nobody writes meanwhile; but it takes the lock of the cache anew for each
  entry and lets go of it before it loads a record, and other threads may then read, drain the
  cache (\<open>drain_cache_evictable\<close> takes \<open>&self\<close>, too) or be the flush worker. \<open>read_step\<close> is
  what the iterator does at once; \<open>interleaved\<close> lets the others in between any two of these.
\<close>

section \<open>The iterator, step by step\<close>

text \<open>
  What is left of the range, whether the cache has been looked at in vain for the first of it,
  and the items returned so far.
\<close>

record ('l, 'p, 'c, 'g) reader =
  rd_todo :: "(u64 \<times> ('l, 'c, 'g) log_data) list"
  rd_missed :: bool
  rd_items :: "('l \<times> 'p, io_error) outcome list"

definition reader_new ::
  "u64 \<Rightarrow> u64 \<Rightarrow> ('l, 'p, 'v, 'u, 'w, 'c, 'g, 'wc) raft_log
     \<Rightarrow> (('l, 'p, 'c, 'g) reader, io_error) outcome" where
  "reader_new lo hi s =
     and_then (bt_range lo hi (sm_log (rl_sm s)))
       (\<lambda>ds. Ok \<lparr>rd_todo = ds, rd_missed = False, rd_items = []\<rparr>)"

definition read_step ::
  "('l::linorder, 'p, 'v, 'u, 'w, 'c, 'g, 'cb) raft_wal
     \<Rightarrow> ('l, 'p, 'c, 'g) reader \<times> ('l, 'p, 'v, 'u, 'w, 'c, 'g, 'wc) raft_log
     \<Rightarrow> (('l, 'p, 'c, 'g) reader \<times> ('l, 'p, 'v, 'u, 'w, 'c, 'g, 'wc) raft_log) option" where
  "read_step W rs =
     (case rs of (r, s) \<Rightarrow>
       (case rd_todo r of
          [] \<Rightarrow> None
        | (_, d) # ds \<Rightarrow>
            if rd_missed r then
              let item = and_then (wal_load_record W (rl_wal s) (ld_chunk_id d) (ld_segment d))
                    (\<lambda>rec. case rec of
                       Action (Append _ payload) \<Rightarrow> Ok (ld_log_id d, payload)
                     | _ \<Rightarrow> Panic)
              in Some (r\<lparr>rd_todo := (if item = Panic then [] else ds), rd_missed := False,
                         rd_items := rd_items r @ [item]\<rparr>, s)
            else
              (case cache_get (sm_cache (rl_sm s)) (ld_log_id d) of
                 Some payload \<Rightarrow>
                   Some (r\<lparr>rd_todo := ds, rd_items := rd_items r @ [Ok (ld_log_id d, payload)]\<rparr>,
                         count_hit s)
               | None \<Rightarrow> Some (r\<lparr>rd_missed := True\<rparr>, count_miss s))))"

text \<open>
  With nobody else around, stepping to the end is \<open>read_items\<close>: the model of one undisturbed
  iteration that the other properties use.
\<close>

fun read_steps ::
  "('l::linorder, 'p, 'v, 'u, 'w, 'c, 'g, 'cb) raft_wal \<Rightarrow> nat
     \<Rightarrow> ('l, 'p, 'c, 'g) reader \<times> ('l, 'p, 'v, 'u, 'w, 'c, 'g, 'wc) raft_log
     \<Rightarrow> ('l, 'p, 'c, 'g) reader \<times> ('l, 'p, 'v, 'u, 'w, 'c, 'g, 'wc) raft_log" where
  "read_steps W 0 rs = rs"
| "read_steps W (Suc n) rs =
     (case read_step W rs of None \<Rightarrow> rs | Some rs' \<Rightarrow> read_steps W n rs')"

inductive interleaved ::
  "('l::linorder, 'p, 'v) raft_types \<Rightarrow> ('l, 'p, 'v, 'u, 'w, 'c::linorder, 'g, 'cb) raft_wal
     \<Rightarrow> ('w \<Rightarrow> 'c \<Rightarrow> 'g \<Rightarrow> ('l, 'p, 'v, 'u) raft_record option) \<Rightarrow> ('w \<Rightarrow> 'c \<Rightarrow> bool)
     \<Rightarrow> ('w \<Rightarrow> ('c \<times> ('l, 'v, 'u) raft_log_state) list) \<Rightarrow> ('w \<Rightarrow> bool)
     \<Rightarrow> ('l, 'p, 'c, 'g) reader \<times> ('l, 'p, 'v, 'u, 'w, 'c, 'g, 'wc) raft_log
     \<Rightarrow> ('l, 'p, 'c, 'g) reader \<times> ('l, 'p, 'v, 'u, 'w, 'c, 'g, 'wc) raft_log \<Rightarrow> bool"
  for T W rec_at readable closed wal_ok where
  il_read:
    "read_step W rs = Some rs' \<Longrightarrow> interleaved T W rec_at readable closed wal_ok rs rs'"
| il_worker:
    "worker_step W rec_at readable closed wal_ok s s' \<Longrightarrow>
       interleaved T W rec_at readable closed wal_ok (r, s) (r, s')"
| il_drain:
    "interleaved T W rec_at readable closed wal_ok (r, s) (r, drain_cache_evictable T s)"
| il_reader:
    "read_items W ds s = (items, s') \<Longrightarrow>
       interleaved T W rec_at readable closed wal_ok (r, s) (r, s')"

section \<open>What the iterator knows\<close>

text \<open>
  The items so far are the first of the range's entries, and the others are still to come; a
  record that is about to be loaded can be loaded.
\<close>

definition reading ::
  "('w \<Rightarrow> 'c \<Rightarrow> 'g \<Rightarrow> ('l, 'p, 'v, 'u) raft_record option) \<Rightarrow> ('w \<Rightarrow> 'c \<Rightarrow> bool)
     \<Rightarrow> ('l \<times> 'p) list \<Rightarrow> ('l, 'p, 'c, 'g) reader
     \<Rightarrow> ('l, 'p, 'v, 'u, 'w, 'c, 'g, 'wc) raft_log \<Rightarrow> bool" where
  "reading rec_at readable xs r s \<longleftrightarrow>
     (\<exists>returned rest. xs = returned @ rest \<and> rd_items r = map Ok returned
        \<and> list_all2 (\<lambda>e x. entry_id e = fst x \<and> placed rec_at (rl_wal s) (snd e) (snd x))
            (rd_todo r) rest
        \<and> set (rd_todo r) \<subseteq> set (sm_log (rl_sm s))
        \<and> (rd_missed r \<longrightarrow> (\<forall>e \<in> set (take 1 (rd_todo r)). readable (rl_wal s) (ld_chunk_id (snd e)))))"

lemma reading_next:
  assumes "reading rec_at readable xs r s" and "rd_todo r = e # ds"
  obtains returned x rest where "xs = returned @ x # rest" and "rd_items r = map Ok returned"
    and "entry_id e = fst x" and "placed rec_at (rl_wal s) (snd e) (snd x)"
    and "list_all2 (\<lambda>e x. entry_id e = fst x \<and> placed rec_at (rl_wal s) (snd e) (snd x)) ds rest"
    and "e \<in> set (sm_log (rl_sm s))" and "set ds \<subseteq> set (sm_log (rl_sm s))"
    and "rd_missed r \<longrightarrow> readable (rl_wal s) (ld_chunk_id (snd e))"
proof -
  from assms(1) have "\<exists>returned todo. xs = returned @ todo \<and> rd_items r = map Ok returned
      \<and> list_all2 (\<lambda>e x. entry_id e = fst x \<and> placed rec_at (rl_wal s) (snd e) (snd x)) (e # ds) todo
      \<and> set (e # ds) \<subseteq> set (sm_log (rl_sm s))
      \<and> (rd_missed r \<longrightarrow> (\<forall>e \<in> set (take 1 (e # ds)). readable (rl_wal s) (ld_chunk_id (snd e))))"
    unfolding reading_def assms(2) .
  then obtain returned todo where
    "xs = returned @ todo" "rd_items r = map Ok returned" "set (e # ds) \<subseteq> set (sm_log (rl_sm s))"
    "rd_missed r \<longrightarrow> (\<forall>e \<in> set (take 1 (e # ds)). readable (rl_wal s) (ld_chunk_id (snd e)))"
    and all: "list_all2 (\<lambda>e x. entry_id e = fst x \<and> placed rec_at (rl_wal s) (snd e) (snd x)) (e # ds) todo"
    by (elim exE conjE) (rule that)
  moreover from all obtain x rest where "todo = x # rest" by (cases todo) simp_all
  ultimately show ?thesis by (intro that [of returned x rest]) simp_all
qed

text \<open>The three things a step may be.\<close>

lemma read_step_cases:
  assumes "rd_todo r = e # ds"
  shows "rd_missed r \<Longrightarrow>
       wal_load_record W (rl_wal s) (ld_chunk_id (snd e)) (ld_segment (snd e)) = Ok (Action (Append l p)) \<Longrightarrow>
       read_step W (r, s) = Some (r\<lparr>rd_todo := ds, rd_missed := False,
         rd_items := rd_items r @ [Ok (entry_id e, p)]\<rparr>, s)"
    and "\<not> rd_missed r \<Longrightarrow> cache_get (sm_cache (rl_sm s)) (entry_id e) = Some p \<Longrightarrow>
       read_step W (r, s) = Some (r\<lparr>rd_todo := ds, rd_items := rd_items r @ [Ok (entry_id e, p)]\<rparr>, count_hit s)"
    and "\<not> rd_missed r \<Longrightarrow> cache_get (sm_cache (rl_sm s)) (entry_id e) = None \<Longrightarrow>
       read_step W (r, s) = Some (r\<lparr>rd_missed := True\<rparr>, count_miss s)"
  using assms by (simp_all add: read_step_def Let_def split_beta)

context raft_wal
begin

lemma reading_extends:
  assumes reading: "reading rec_at readable xs r s" and sm: "sm_log (rl_sm s') = sm_log (rl_sm s)"
    and ext: "wal_extends rec_at readable {} (rl_wal s) (rl_wal s')"
  shows "reading rec_at readable xs r s'"
proof -
  from reading obtain returned rest where split: "xs = returned @ rest" "rd_items r = map Ok returned"
    "list_all2 (\<lambda>e x. entry_id e = fst x \<and> placed rec_at (rl_wal s) (snd e) (snd x)) (rd_todo r) rest"
    "set (rd_todo r) \<subseteq> set (sm_log (rl_sm s))"
    "rd_missed r \<longrightarrow> (\<forall>e \<in> set (take 1 (rd_todo r)). readable (rl_wal s) (ld_chunk_id (snd e)))"
    unfolding reading_def by (elim exE conjE) (rule that)
  have keep: "placed rec_at (rl_wal s') d p" if "placed rec_at (rl_wal s) d p" for d p
    using that ext by (simp add: placed_def wal_extends_def)
  have "list_all2 (\<lambda>e x. entry_id e = fst x \<and> placed rec_at (rl_wal s') (snd e) (snd x)) (rd_todo r) rest"
    by (rule list_all2_mono [OF split(3)]) (simp add: keep)
  moreover have "readable (rl_wal s') c" if "readable (rl_wal s) c" for c
    using that ext by (simp add: wal_extends_def)
  ultimately show ?thesis
    unfolding reading_def using split(1,2,4,5) sm
    by (intro exI [of _ returned] exI [of _ rest]) simp
qed

lemma extends_refl: "wal_extends rec_at readable {} w w"
  by (simp add: wal_extends_def)

text \<open>A step of the iterator itself.\<close>

lemma read_step_reading:
  assumes inv: "rl_inv T W rec_at readable closed wal_ok s"
    and reading: "reading rec_at readable xs r s" and step: "read_step W (r, s) = Some (r', s')"
  shows "reading rec_at readable xs r' s' \<and> (\<exists>a. s' = s\<lparr>rl_access := a\<rparr>)"
proof -
  from step obtain e ds where todo: "rd_todo r = e # ds"
    by (cases "rd_todo r") (auto simp: read_step_def)
  from reading todo obtain returned x rest where xs: "xs = returned @ x # rest"
    and items: "rd_items r = map Ok returned" and x: "entry_id e = fst x"
      "placed rec_at (rl_wal s) (snd e) (snd x)"
    and rest: "list_all2 (\<lambda>e x. entry_id e = fst x \<and> placed rec_at (rl_wal s) (snd e) (snd x)) ds rest"
    and live: "e \<in> set (sm_log (rl_sm s))" "set ds \<subseteq> set (sm_log (rl_sm s))"
    and missed: "rd_missed r \<longrightarrow> readable (rl_wal s) (ld_chunk_id (snd e))"
    by (rule reading_next)
  have ok: "wal_ok (rl_wal s)" using inv by (simp add: rl_inv_def)
  note entry = inv_entry [OF inv live(1)]
  have next_ok: "reading rec_at readable xs r1 (s\<lparr>rl_access := a\<rparr>)"
    if "rd_todo r1 = ds" "\<not> rd_missed r1" "rd_items r1 = rd_items r @ [Ok x]" for r1 a
    unfolding reading_def using xs items rest live(2) that
    by (intro exI [of _ "returned @ [x]"] exI [of _ rest]) simp
  show ?thesis
  proof (cases "rd_missed r")
    case True
    with missed x(2) have "wal_load_record W (rl_wal s) (ld_chunk_id (snd e)) (ld_segment (snd e)) =
        Ok (Action (Append (entry_id e) (snd x)))" using load_law [OF ok] by (simp add: placed_def)
    from read_step_cases(1) [OF todo True this] step x(1) have
      "r' = r\<lparr>rd_todo := ds, rd_missed := False, rd_items := rd_items r @ [Ok x]\<rparr>"
      "s' = s\<lparr>rl_access := rl_access s\<rparr>" by simp_all
    with next_ok [of r' "rl_access s"] show ?thesis by (auto intro: exI [of _ "rl_access s"])
  next
    case hit: False
    show ?thesis
    proof (cases "cache_get (sm_cache (rl_sm s)) (entry_id e)")
      case (Some p)
      with entry x(2) have "p = snd x" by (auto simp: entry_ok_def placed_def)
      with read_step_cases(2) [OF todo hit Some, of W] step x(1) have
        "r' = r\<lparr>rd_todo := ds, rd_items := rd_items r @ [Ok x]\<rparr>" "s' = count_hit s" by simp_all
      then show ?thesis using next_ok [of r'] hit by (auto simp: count_hit_def)
    next
      case None
      with entry have readable: "readable (rl_wal s) (ld_chunk_id (snd e))" by (auto simp: entry_ok_def)
      from read_step_cases(3) [OF todo hit None, of W] step have
        "r' = r\<lparr>rd_missed := True\<rparr>" "s' = count_miss s" by simp_all
      moreover have "reading rec_at readable xs (r\<lparr>rd_missed := True\<rparr>) (count_miss s)"
        unfolding reading_def using xs items x rest live todo readable
        by (intro exI [of _ returned] exI [of _ "x # rest"]) (simp add: count_miss_def)
      ultimately show ?thesis by (auto simp: count_miss_def)
    qed
  qed
qed

lemma interleaved_reading:
  assumes "interleaved T W rec_at readable closed wal_ok (r, s) (r', s')"
    and inv: "rl_inv T W rec_at readable closed wal_ok s" and holds: "log_holds rec_at s es"
    and reading: "reading rec_at readable xs r s"
  shows "rl_inv T W rec_at readable closed wal_ok s' \<and> log_holds rec_at s' es
     \<and> reading rec_at readable xs r' s'"
  using assms(1)
proof cases
  case il_read
  from read_step_reading [OF inv reading il_read] inv holds show ?thesis
    by (auto simp: inv_access log_holds_def)
next
  case il_worker
  then have keeps: "rl_inv T W rec_at readable closed wal_ok s' \<and> log_holds rec_at s' es"
    using worker_keeps [OF r_into_rtranclp inv holds] by blast
  from il_worker(2) have "wal_extends rec_at readable {} (rl_wal s) (rl_wal s') \<and> sm_log (rl_sm s') = sm_log (rl_sm s)"
    by cases (simp_all add: worker_callback_def extends_refl)
  then have "reading rec_at readable xs r s'" by (intro reading_extends [OF reading]) simp_all
  with il_worker(1) keeps show ?thesis by simp
next
  case il_drain
  have "rl_inv T W rec_at readable closed wal_ok (drain_cache_evictable T s)"
    using drain_follows [OF inv holds] by (simp add: follows_def)
  moreover have "reading rec_at readable xs r (drain_cache_evictable T s)"
    by (rule reading_extends [OF reading]) (simp_all add: drain_cache_evictable_def extends_refl)
  ultimately show ?thesis using il_drain holds by (simp add: log_holds_def drain_cache_evictable_def)
next
  case (il_reader ds items)
  from read_items_only [of W ds s] il_reader(2) obtain a where "s' = s\<lparr>rl_access := a\<rparr>" by auto
  with il_reader(1) inv holds reading show ?thesis by (simp add: inv_access log_holds_def reading_def)
qed

lemma interleaved_run:
  assumes "(interleaved T W rec_at readable closed wal_ok)\<^sup>*\<^sup>* (r, s) (r', s')"
    and "rl_inv T W rec_at readable closed wal_ok s" and "log_holds rec_at s es"
    and "reading rec_at readable xs r s"
  shows "rl_inv T W rec_at readable closed wal_ok s' \<and> log_holds rec_at s' es
     \<and> reading rec_at readable xs r' s'"
  using assms(1)
proof (induction "(r', s')" arbitrary: r' s' rule: rtranclp_induct)
  case base
  with assms show ?case by simp
next
  case (step rs)
  obtain r1 s1 where rs: "rs = (r1, s1)" by (cases rs)
  from interleaved_reading [of T r1 s1 r' s' es xs] step.hyps(2) step.hyps(3) [OF rs] rs
  show ?case by simp
qed

lemma reader_starts:
  assumes inv: "rl_inv T W rec_at readable closed wal_ok s" and holds: "log_holds rec_at s es"
    and new: "reader_new lo hi s = Ok r"
  shows "reading rec_at readable
     (filter (\<lambda>x. lo \<le> log_index T (fst x) \<and> log_index T (fst x) < hi) es) r s"
proof -
  from new have "r = \<lparr>rd_todo = filter (\<lambda>e. lo \<le> fst e \<and> fst e < hi) (sm_log (rl_sm s)),
      rd_missed = False, rd_items = []\<rparr>"
    by (auto simp: reader_new_def bt_range_def split: if_splits)
  then show ?thesis
    unfolding reading_def using range_holds [OF inv holds, of lo hi]
    by (intro exI [of _ "[]"]
        exI [of _ "filter (\<lambda>x. lo \<le> log_index T (fst x) \<and> log_index T (fst x) < hi) es"]) auto
qed

end

section \<open>Reading to the end\<close>

definition reads_left :: "('l, 'p, 'c, 'g) reader \<Rightarrow> nat" where
  "reads_left r = 2 * length (rd_todo r) - (if rd_missed r then 1 else 0)"

lemma read_step_None: "read_step W (r, s) = None \<longleftrightarrow> rd_todo r = []"
  by (auto simp: read_step_def Let_def split: list.split option.split)

lemma read_steps_done [simp]: "rd_todo r = [] \<Longrightarrow> read_steps W n (r, s) = (r, s)"
  by (cases n) (simp_all add: read_step_def)

lemma read_step_less:
  "read_step W (r, s) = Some (r', s') \<Longrightarrow> reads_left r' < reads_left r"
  by (auto simp: read_step_def reads_left_def Let_def split: list.splits if_splits option.splits)

text \<open>Undisturbed steps to the end are the run of the iterator that \<open>read_items\<close> is.\<close>

lemma read_steps_items:
  assumes "read_items W ds s = (items, s')" and "2 * length ds \<le> n"
  shows "read_steps W n (\<lparr>rd_todo = ds, rd_missed = False, rd_items = acc\<rparr>, s) =
     (\<lparr>rd_todo = [], rd_missed = False, rd_items = acc @ items\<rparr>, s')"
  using assms
proof (induction ds arbitrary: n s acc items)
  case (Cons e ds)
  obtain i d where e: "e = (i, d)" by (cases e)
  from Cons.prems(2) obtain k where n: "n = Suc (Suc k)" "2 * length ds \<le> k"
    by (cases n; cases "n - 1") auto
  let ?r = "\<lambda>ds missed items. \<lparr>rd_todo = ds, rd_missed = missed, rd_items = items\<rparr>"
  show ?case
  proof (cases "cache_get (sm_cache (rl_sm s)) (ld_log_id d)")
    case (Some p)
    let ?item = "Ok (ld_log_id d, p)"
    have entry: "read_entry W d s = (?item, count_hit s)" using Some by (simp add: read_entry_def)
    with Cons.prems(1) e obtain items' where
      rest: "read_items W ds (count_hit s) = (items', s')" and items: "items = ?item # items'"
      by (cases "read_items W ds (count_hit s)") auto
    have "read_step W (?r ((i, d) # ds) False acc, s) = Some (?r ds False (acc @ [?item]), count_hit s)"
      using Some by (simp add: read_step_def)
    with Cons.IH [OF rest, of "Suc k" "acc @ [?item]"] n(2) show ?thesis
      by (simp only: n(1) e items read_steps.simps) simp
  next
    case None
    let ?item = "and_then (wal_load_record W (rl_wal s) (ld_chunk_id d) (ld_segment d))
        (\<lambda>rec. case rec of Action (Append _ payload) \<Rightarrow> Ok (ld_log_id d, payload) | _ \<Rightarrow> Panic)"
    have wal: "rl_wal (count_miss s) = rl_wal s" by (simp add: count_miss_def)
    have entry: "read_entry W d s = (?item, count_miss s)" using None by (simp add: read_entry_def)
    have "read_step W (?r ((i, d) # ds) False acc, s) = Some (?r ((i, d) # ds) True acc, count_miss s)"
      using None by (simp add: read_step_def)
    moreover have "read_step W (?r ((i, d) # ds) True acc, count_miss s) =
        Some (?r (if ?item = Panic then [] else ds) False (acc @ [?item]), count_miss s)"
      by (simp add: read_step_def wal Let_def)
    ultimately have steps: "read_steps W n (?r (e # ds) False acc, s) =
        read_steps W k (?r (if ?item = Panic then [] else ds) False (acc @ [?item]), count_miss s)"
      by (simp only: n(1) e read_steps.simps option.case)
    show ?thesis
    proof (cases "?item = Panic")
      case True
      with Cons.prems(1) e entry have "items = [Panic]" "s' = count_miss s" by simp_all
      with True steps show ?thesis by simp
    next
      case False
      with Cons.prems(1) e entry obtain items' where
        rest: "read_items W ds (count_miss s) = (items', s')" and items: "items = ?item # items'"
        by (cases "read_items W ds (count_miss s)"; cases ?item) auto
      from Cons.IH [OF rest n(2), of "acc @ [?item]"] False steps items show ?thesis by simp
    qed
  qed
qed simp

context raft_wal
begin

lemma read_steps_interleaved:
  "(interleaved T W rec_at readable closed wal_ok)\<^sup>*\<^sup>* rs (read_steps W n rs)"
proof (induction n arbitrary: rs)
  case (Suc n)
  show ?case
  proof (cases "read_step W rs")
    case (Some rs')
    from converse_rtranclp_into_rtranclp [OF il_read [OF Some] Suc] Some show ?thesis by simp
  qed simp
qed simp

lemma read_steps_end:
  "reads_left (fst rs) \<le> n \<Longrightarrow> rd_todo (fst (read_steps W n rs)) = []"
proof (induction n arbitrary: rs)
  case 0
  then show ?case by (cases "rd_todo (fst rs)") (auto simp: reads_left_def split: if_splits)
next
  case (Suc n)
  obtain r s where rs: "rs = (r, s)" by (cases rs)
  show ?case
  proof (cases "read_step W rs")
    case None
    then show ?thesis using rs by (simp add: read_step_None read_step_None [THEN iffD2])
  next
    case (Some rs')
    with read_step_less [of W r s "fst rs'" "snd rs'"] rs Suc show ?thesis by simp
  qed
qed

lemma reading_shows:
  assumes "reading rec_at readable xs r s"
  shows "rd_items r = map Ok (take (length (rd_items r)) xs)"
    and "length (rd_items r) + length (rd_todo r) = length xs"
  using assms by (auto simp: reading_def dest: list_all2_lengthD)

end

text \<open>C6: Safety. However the steps of an iteration are interleaved with draining the cache, the
  flush worker and other readers, what the iterator has returned at any time are the first
  entries of its range, each with its own payload and none of them an error; the log is what it
  was. From wherever the others have left it, the iterator ends after at most two steps of its
  own per entry that is left, and has then returned all of the range.\<close>

theorem interleaved_read_returns:
  assumes laws: "raft_wal W rec_at readable closed wal_ok"
    and inv: "rl_inv T W rec_at readable closed wal_ok s" and holds: "log_holds rec_at s es"
    and new: "reader_new lo hi s = Ok r"
    and run: "(interleaved T W rec_at readable closed wal_ok)\<^sup>*\<^sup>* (r, s) (r', s')"
  shows "let range = filter (\<lambda>x. lo \<le> log_index T (fst x) \<and> log_index T (fst x) < hi) es
     in rd_items r' = map Ok (take (length (rd_items r')) range)
        \<and> log_holds rec_at s' es \<and> rl_inv T W rec_at readable closed wal_ok s'
        \<and> rd_todo (fst (read_steps W (2 * length (rd_todo r')) (r', s'))) = []
        \<and> rd_items (fst (read_steps W (2 * length (rd_todo r')) (r', s'))) = map Ok range"
proof -
  let ?range = "filter (\<lambda>x. lo \<le> log_index T (fst x) \<and> log_index T (fst x) < hi) es"
  obtain r2 s2 where steps: "read_steps W (2 * length (rd_todo r')) (r', s') = (r2, s2)" by fastforce
  note reading = raft_wal.reader_starts [OF laws inv holds new]
  note now = raft_wal.interleaved_run [OF laws run inv holds reading]
  have "(interleaved T W rec_at readable closed wal_ok)\<^sup>*\<^sup>* (r', s') (r2, s2)"
    using raft_wal.read_steps_interleaved [OF laws] steps by metis
  with now have "reading rec_at readable ?range r2 s2" using raft_wal.interleaved_run [OF laws] by blast
  note shown = raft_wal.reading_shows [OF laws this]
  have "rd_todo r2 = []"
    using raft_wal.read_steps_end [OF laws, of "(r', s')" "2 * length (rd_todo r')"] steps
    by (simp add: reads_left_def)
  with shown now steps raft_wal.reading_shows(1) [OF laws, of ?range r' s'] show ?thesis
    by (simp add: Let_def)
qed

text \<open>The worker and a drain empty the cache when the first of two entries has been read.\<close>

theorem interleaved_read_returns_witness:
  "\<exists>r r1 s1 s2. reader_new 0 2 two_entries = Ok r
     \<and> read_step test_api (r, two_entries) = Some (r1, s1)
     \<and> s2 = drain_cache_evictable test_types (worker_callback (Some two_entries_state) s1)
     \<and> pc_cache (sm_cache (rl_sm s2)) = []
     \<and> rd_items (fst (read_steps test_api 2 (r1, s2))) =
         map Ok [((1, 0), ''hi''), ((1, 1), ''hello'')]"
proof -
  let ?e = "\<lambda>i g. (i, \<lparr>ld_log_id = (1, i), ld_chunk_id = 0, ld_segment = g\<rparr>)"
  let ?r = "\<lparr>rd_todo = [?e 0 1, ?e 1 2], rd_missed = False, rd_items = []\<rparr>
    :: (test_id, string, nat, nat) reader"
  let ?r1 = "\<lparr>rd_todo = [?e 1 2], rd_missed = False, rd_items = [Ok ((1, 0), ''hi'')]\<rparr>
    :: (test_id, string, nat, nat) reader"
  let ?s1 = "count_hit two_entries"
  let ?w = "worker_callback (Some two_entries_state) ?s1"
  let ?s2 = "drain_cache_evictable test_types ?w"
  let ?il = "interleaved test_types test_api mem_rec_at mem_readable mw_closed mem_ok"
  have new: "reader_new 0 2 two_entries = Ok ?r" by (simp add: reader_new_def run_simps)
  have step: "read_step test_api (?r, two_entries) = Some (?r1, ?s1)"
    by (simp add: read_step_def run_simps)
  have "persisted_upto mem_readable ?s1 (Some two_entries_state)"
    by (simp add: persisted_upto_def run_simps)
  from il_worker [OF worker_persisted [OF this]] have "?il (?r1, ?s1) (?r1, ?w)" .
  with il_read [OF step] il_drain have run: "?il\<^sup>*\<^sup>* (?r, two_entries) (?r1, ?s2)"
    by (meson rtranclp.rtrancl_into_rtrancl rtranclp.rtrancl_refl)
  have "pc_cache (sm_cache (rl_sm ?s2)) = []" by (simp add: two_entries_state_def run_simps)
  with interleaved_read_returns [OF tw.raft_wal_axioms two_entries_inv two_entries_holds new run]
    new step show ?thesis
    by (intro exI [of _ ?r] exI [of _ ?r1] exI [of _ ?s1] exI [of _ ?s2])
      (simp add: Let_def word_less_nat_alt)
qed

end
