(* ===== verification/Flush_Bench.thy ===== *)
theory Flush_Bench imports Client_Runs
begin

text \<open>
  \<open>examples/flush_batch_bench.rs\<close>, apart from the store: reading the options, the loop that
  receives one callback per operation, and the latency histogram of the report.

  An error of the program (\<open>Box<dyn Error>\<close>) is its text. A \<open>Duration\<close> is its length in
  nanoseconds. What the report computes in floating point is left out.
\<close>

section \<open>Options\<close>

record options =
  opt_operations :: usize
  opt_payload_bytes :: usize
  opt_wait_us :: "u64 list"
  opt_batch_sizes :: "usize list"
  opt_output :: string

text \<open>
  \<open>str::parse\<close> of the standard library for a 64 bit unsigned integer: an optional plus sign,
  then digits; the first character that is no digit or exceeds the range decides the error.
\<close>

definition invalid_digit :: string where
  "invalid_digit = ''invalid digit found in string''"

definition too_large :: string where
  "too_large = ''number too large to fit in target type''"

fun parse_digits :: "nat \<Rightarrow> string \<Rightarrow> (u64, string) outcome" where
  "parse_digits n [] = Ok (of_nat n)"
| "parse_digits n (c # cs) =
     (if \<not> is_digit c then Err invalid_digit
      else if 2 ^ 64 \<le> 10 * n + digit_val c then Err too_large
      else parse_digits (10 * n + digit_val c) cs)"

definition parse_u64 :: "string \<Rightarrow> (u64, string) outcome" where
  "parse_u64 s =
     (if s = [] then Err ''cannot parse integer from empty string''
      else if s = ''+'' then Err invalid_digit
      else if hd s = CHR ''+'' then parse_digits 0 (tl s)
      else parse_digits 0 s)"

fun split_comma :: "string \<Rightarrow> string list" where
  "split_comma [] = [[]]"
| "split_comma (c # cs) =
     (if c = CHR '','' then [] # split_comma cs
      else (c # hd (split_comma cs)) # tl (split_comma cs))"

definition missing_arg :: "string \<Rightarrow> string" where
  "missing_arg name = ''missing value for '' @ name"

text \<open>\<open>args.get(i)\<close> with the error for a value that is missing; \<open>args\<close> are those from there on.\<close>

definition arg_value :: "string \<Rightarrow> string list \<Rightarrow> (string, string) outcome" where
  "arg_value name args = (case args of [] \<Rightarrow> Err (missing_arg name) | raw # _ \<Rightarrow> Ok raw)"

definition parse_arg :: "string list \<Rightarrow> string \<Rightarrow> (usize, string) outcome" where
  "parse_arg args name = and_then (arg_value name args) parse_u64"

definition parse_list :: "string \<Rightarrow> (u64 list, string) outcome" where
  "parse_list raw = collect_results (map parse_u64 (split_comma raw))"

text \<open>\<open>--help\<close> prints the usage and ends the process.\<close>

datatype parsed = Parsed options | Rejected string | HelpShown

fun with_value :: "('a, string) outcome \<Rightarrow> ('a \<Rightarrow> parsed) \<Rightarrow> parsed" where
  "with_value (Ok a) f = f a"
| "with_value (Err e) f = Rejected e"
| "with_value Panic f = Rejected []"

fun parse_args :: "options \<Rightarrow> string list \<Rightarrow> parsed" where
  "parse_args opts [] = Parsed opts"
| "parse_args opts (arg # args) =
     (if arg = ''--operations'' then
        with_value (parse_arg args ''--operations'')
          (\<lambda>n. parse_args (opts\<lparr>opt_operations := n\<rparr>) (tl args))
      else if arg = ''--payload-bytes'' then
        with_value (parse_arg args ''--payload-bytes'')
          (\<lambda>n. parse_args (opts\<lparr>opt_payload_bytes := n\<rparr>) (tl args))
      else if arg = ''--wait-us'' then
        with_value (and_then (arg_value ''--wait-us'' args) parse_list)
          (\<lambda>ws. parse_args (opts\<lparr>opt_wait_us := ws\<rparr>) (tl args))
      else if arg = ''--batch-size'' \<or> arg = ''--batch-sizes'' then
        with_value (and_then (arg_value ''--batch-size'' args) parse_list)
          (\<lambda>bs. parse_args (opts\<lparr>opt_batch_sizes := map (max 1) bs\<rparr>) (tl args))
      else if arg = ''--output'' then
        with_value (arg_value ''--output'' args)
          (\<lambda>raw. parse_args (opts\<lparr>opt_output := raw\<rparr>) (tl args))
      else if arg = ''--help'' \<or> arg = ''-h'' then HelpShown
      else Rejected (''unknown argument: '' @ arg))"

definition default_options :: options where
  "default_options =
     \<lparr>opt_operations = 2048, opt_payload_bytes = 256, opt_wait_us = [0, 100, 1000, 2000, 5000],
      opt_batch_sizes = [1024], opt_output = ''target/flush_batch_bench_report.md''\<rparr>"

text \<open>\<open>Options::parse\<close>, given the arguments after the program's name.\<close>

definition parse_options :: "string list \<Rightarrow> parsed" where
  "parse_options args = parse_args default_options args"

section \<open>Callbacks received\<close>

text \<open>
  The callbacks: \<open>events\<close> are those that will arrive, in this order, before the last sender is
  dropped; receiving fails when there are no more.
\<close>

record callback_event =
  ev_id :: usize
  ev_latency :: nat
  ev_error :: "string option"

text \<open>
  \<open>BenchCallback\<close>, without its channel, and the event that \<open>send\<close> sends at the time \<open>now\<close> when
  the flush has completed or failed with an error.
\<close>

record bench_callback =
  cb_id :: usize
  cb_submitted_at :: nat

definition callback_send :: "nat \<Rightarrow> bench_callback \<Rightarrow> (unit, io_error) outcome \<Rightarrow> callback_event" where
  "callback_send now cb res =
     \<lparr>ev_id = cb_id cb, ev_latency = now - cb_submitted_at cb,
      ev_error = (case res of Err e \<Rightarrow> Some (err_msg e) | _ \<Rightarrow> None)\<rparr>"

fun receive ::
  "usize \<Rightarrow> nat \<Rightarrow> callback_event list \<Rightarrow> bool list \<Rightarrow> nat list \<Rightarrow> (nat list, string) outcome" where
  "receive operations 0 events seen latencies = Ok latencies"
| "receive operations (Suc n) [] seen latencies = Err ''receiving on a closed channel''"
| "receive operations (Suc n) (event # events) seen latencies =
     (case ev_error event of
        Some error \<Rightarrow> Err error
      | None \<Rightarrow>
          if operations \<le> ev_id event
          then Err (''callback id out of range: '' @ show_u64 (ev_id event))
          else if seen ! unat (ev_id event)
          then Err (''duplicate callback id: '' @ show_u64 (ev_id event))
          else receive operations n events (seen[unat (ev_id event) := True])
                 (latencies @ [ev_latency event]))"

definition receive_all :: "usize \<Rightarrow> callback_event list \<Rightarrow> (nat list, string) outcome" where
  "receive_all operations events =
     receive operations (unat operations) events (replicate (unat operations) False) []"

section \<open>The histogram\<close>

definition duration_us :: "nat \<Rightarrow> u64" where
  "duration_us duration = of_nat (min (duration div 1000) (2 ^ 64 - 1))"

definition bounds :: "u64 list" where
  "bounds = [100, 250, 500, 1000, 2000, 5000, 10000, 20000, 50000, 100000, 250000, 500000, 1000000]"

text \<open>\<open>position\<close>, with the length where nothing is found.\<close>

fun position :: "('a \<Rightarrow> bool) \<Rightarrow> 'a list \<Rightarrow> nat" where
  "position P [] = 0"
| "position P (x # xs) = (if P x then 0 else Suc (position P xs))"

definition bucket :: "u64 \<Rightarrow> nat" where
  "bucket us = position (\<lambda>bound. us \<le> bound) bounds"

definition count_latency :: "nat \<Rightarrow> usize list \<Rightarrow> usize list" where
  "count_latency latency counts =
     (let index = bucket (duration_us latency) in counts[index := counts ! index + 1])"

fun bound_rows :: "u64 \<Rightarrow> u64 list \<Rightarrow> usize list \<Rightarrow> (string \<times> usize) list" where
  "bound_rows lower (upper # uppers) (count # counts) =
     (show_u64 lower @ ''..'' @ show_u64 upper @ '' us'', count)
       # bound_rows (upper + 1) uppers counts"
| "bound_rows lower _ _ = []"

definition histogram :: "nat list \<Rightarrow> (string \<times> usize) list" where
  "histogram latencies =
     (let counts = fold count_latency latencies (replicate (length bounds + 1) 0)
      in bound_rows 0 bounds counts
         @ [(''>'' @ show_u64 (bounds ! (length bounds - 1)) @ '' us'', counts ! length bounds)])"

section \<open>Reading options back\<close>

lemma parse_digits_value:
  assumes "\<forall>c \<in> set cs. is_digit c" and "foldl (\<lambda>n c. 10 * n + digit_val c) n cs < 2 ^ 64"
  shows "parse_digits n cs = Ok (of_nat (foldl (\<lambda>n c. 10 * n + digit_val c) n cs))"
  using assms
proof (induction cs arbitrary: n)
  case (Cons c cs)
  have "m \<le> foldl (\<lambda>n c. 10 * n + digit_val c) m cs" for m
  proof (induction cs arbitrary: m)
    case (Cons a cs)
    from Cons.IH [of "10 * m + digit_val a"] show ?case by simp
  qed simp
  from this [of "10 * n + digit_val c"] Cons show ?case by simp
qed simp

lemma digit_not_plus: "is_digit c \<Longrightarrow> c \<noteq> CHR ''+'' \<and> c \<noteq> CHR '',''"
  by (auto simp: is_digit_def)

lemma show_u64_digits: "c \<in> set (show_u64 w) \<Longrightarrow> is_digit c"
  using dec_string_digits [of "unat w"] by (simp add: show_u64_def)

lemma parse_show_u64 [simp]: "parse_u64 (show_u64 w) = Ok w"
proof -
  have "parse_digits 0 (show_u64 w) = Ok w"
    using parse_digits_value [of "dec_string (unat w)" 0] dec_string_digits [of "unat w"]
      parse_dec_string [of "unat w"] unsigned_less [of w]
    by (simp add: show_u64_def parse_dec_def)
  moreover obtain c cs where "show_u64 w = c # cs"
    by (cases "show_u64 w") (simp_all add: show_u64_def)
  ultimately show ?thesis
    using digit_not_plus [of c] show_u64_digits [of c w] by (auto simp: parse_u64_def)
qed

fun join_comma :: "string list \<Rightarrow> string" where
  "join_comma [] = []"
| "join_comma [s] = s"
| "join_comma (s # t # ss) = s @ CHR '','' # join_comma (t # ss)"

lemma split_comma_append:
  "CHR '','' \<notin> set s \<Longrightarrow> split_comma (s @ CHR '','' # rest) = s # split_comma rest"
  by (induction s) auto

lemma split_comma_plain: "CHR '','' \<notin> set s \<Longrightarrow> split_comma s = [s]"
  by (induction s) auto

lemma split_join:
  "ss \<noteq> [] \<Longrightarrow> \<forall>s \<in> set ss. CHR '','' \<notin> set s \<Longrightarrow> split_comma (join_comma ss) = ss"
  by (induction ss rule: join_comma.induct) (auto simp: split_comma_append split_comma_plain)

lemma parse_list_back [simp]: "ws \<noteq> [] \<Longrightarrow> parse_list (join_comma (map show_u64 ws)) = Ok ws"
proof -
  assume "ws \<noteq> []"
  moreover have "CHR '','' \<notin> set (show_u64 w)" for w
    using show_u64_digits [of "CHR '',''" w] by (auto simp: is_digit_def)
  ultimately have "split_comma (join_comma (map show_u64 ws)) = map show_u64 ws"
    by (simp add: split_join)
  then show ?thesis using collect_map_Ok [of ws] by (simp add: parse_list_def comp_def)
qed

definition args_of :: "options \<Rightarrow> string list" where
  "args_of opts =
     [''--operations'', show_u64 (opt_operations opts),
      ''--payload-bytes'', show_u64 (opt_payload_bytes opts),
      ''--wait-us'', join_comma (map show_u64 (opt_wait_us opts)),
      ''--batch-sizes'', join_comma (map show_u64 (opt_batch_sizes opts)),
      ''--output'', opt_output opts]"

text \<open>
  Round trip: options written out as arguments are read back, whatever the defaults; lists
  must not be empty and a batch size is at least 1.
\<close>

theorem options_read_back:
  assumes "opt_wait_us opts \<noteq> []" and "opt_batch_sizes opts \<noteq> []"
    and "\<forall>b \<in> set (opt_batch_sizes opts). 1 \<le> b"
  shows "parse_options (args_of opts) = Parsed opts"
proof -
  have "map (max 1) (opt_batch_sizes opts) = opt_batch_sizes opts"
    using assms(3) by (intro map_idI) (simp add: max_absorb2)
  with assms(1,2) show ?thesis by (simp add: parse_options_def args_of_def parse_arg_def arg_value_def)
qed

section \<open>One callback per operation\<close>

lemma receive_Ok:
  assumes "length seen = unat operations"
  shows "receive operations n events seen latencies = Ok ls \<longleftrightarrow>
     n \<le> length events
     \<and> (\<forall>e \<in> set (take n events). ev_error e = None \<and> ev_id e < operations
            \<and> \<not> seen ! unat (ev_id e))
     \<and> distinct (map ev_id (take n events))
     \<and> ls = latencies @ map ev_latency (take n events)"
  using assms
proof (induction operations n events seen latencies rule: receive.induct)
  case (3 operations n event events seen latencies)
  show ?case
  proof (cases "ev_error event = None \<and> ev_id event < operations \<and> \<not> seen ! unat (ev_id event)")
    case False
    then show ?thesis by (auto simp: not_less split: option.splits)
  next
    case True
    then have "unat (ev_id event) < length seen" using "3.prems" by (simp add: word_less_nat_alt)
    then have "seen[unat (ev_id event) := True] ! unat (ev_id e)
        \<longleftrightarrow> ev_id e = ev_id event \<or> seen ! unat (ev_id e)" for e
      by (cases "ev_id e = ev_id event") (simp_all add: word_unat_eq_iff)
    with 3 True show ?thesis by (auto simp: not_less [symmetric]) (metis image_eqI)+
  qed
qed auto

text \<open>
  Receiving ends without an error exactly when, among the callbacks, the first ones as many as
  there are operations carry no error and come from each operation once; the latencies are
  then those of these callbacks.
\<close>

lemma receive_each_once:
  "receive_all operations events = Ok latencies \<longleftrightarrow>
     (\<exists>es rest. events = es @ rest \<and> length es = unat operations
        \<and> (\<forall>e \<in> set es. ev_error e = None)
        \<and> distinct (map ev_id es) \<and> ev_id ` set es = {..<operations}
        \<and> latencies = map ev_latency es)"
  (is "?received \<longleftrightarrow> ?each")
proof -
  let ?n = "unat operations"
  have "unat ` {..<operations} = {..<?n}"
  proof
    show "{..<?n} \<subseteq> unat ` {..<operations}"
    proof
      fix k assume k: "k \<in> {..<?n}"
      then have "k < ?n" by simp
      also have "?n < 2 ^ LENGTH(64)" by (rule unsigned_less)
      finally have "unat (of_nat k :: usize) = k" by (simp add: unsigned_of_nat take_bit_nat_eq_self)
      with k show "k \<in> unat ` {..<operations}"
        by (intro image_eqI [of _ _ "of_nat k"]) (simp_all add: word_less_nat_alt)
    qed
  qed (auto simp: word_less_nat_alt)
  then have card: "card {..<operations} = ?n"
    by (metis card_image card_lessThan inj_onI word_unat_eq_iff)
  have covers: "ev_id ` set es = {..<operations} \<longleftrightarrow> (\<forall>e \<in> set es. ev_id e < operations)"
    if "distinct (map ev_id es)" "length es = ?n" for es
  proof -
    have "card (ev_id ` set es) = ?n" using that distinct_card [of "map ev_id es"] by simp
    then show ?thesis using card_subset_eq [of "{..<operations}" "ev_id ` set es"] card by auto
  qed
  have received: "?received \<longleftrightarrow>
     ?n \<le> length events
     \<and> (\<forall>e \<in> set (take ?n events). ev_error e = None \<and> ev_id e < operations)
     \<and> distinct (map ev_id (take ?n events)) \<and> latencies = map ev_latency (take ?n events)"
    by (auto simp: receive_all_def receive_Ok word_less_nat_alt)
  show ?thesis
  proof
    assume ?received
    with received covers [of "take ?n events"] show ?each
      by (intro exI [of _ "take ?n events"] exI [of _ "drop ?n events"]) auto
  next
    assume ?each
    then obtain es rest where es: "events = es @ rest" "length es = ?n"
      "\<forall>e \<in> set es. ev_error e = None" "distinct (map ev_id es)"
      "ev_id ` set es = {..<operations}" "latencies = map ev_latency es" by blast
    then have "take ?n events = es" by simp
    with received es covers [of es] show ?received by auto
  qed
qed

section \<open>Buckets\<close>

lemma position_le: "position P xs \<le> length xs"
  by (induction xs) simp_all

lemma position_sorted:
  fixes u :: "'a::linorder"
  assumes "sorted xs" and "k \<le> length xs"
  shows "position (\<lambda>b. u \<le> b) xs = k \<longleftrightarrow>
     (k = 0 \<or> xs ! (k - 1) < u) \<and> (k = length xs \<or> u \<le> xs ! k)"
  using assms
proof (induction xs arbitrary: k)
  case (Cons x xs)
  show ?case
  proof (cases k)
    case 0
    then show ?thesis by simp
  next
    case (Suc j)
    have "\<not> xs ! (j - 1) < u" if "j \<noteq> 0" "u \<le> x"
      using that Cons.prems Suc order.trans [of u x "xs ! (j - 1)"] by (simp add: not_less)
    with Cons Suc show ?thesis by (cases j) (auto simp: not_le)
  qed
qed simp

lemma fold_counts:
  assumes "k < length counts" and "length counts = length bounds + 1"
  shows "fold count_latency ls counts ! k =
     counts ! k + of_nat (length (filter (\<lambda>l. bucket (duration_us l) = k) ls))"
  using assms
proof (induction ls arbitrary: counts)
  case (Cons l ls)
  have "bucket (duration_us l) < length counts"
    using position_le [of _ bounds] Cons.prems(2) by (simp add: bucket_def less_Suc_eq_le)
  with Cons show ?case
    by (cases "bucket (duration_us l) = k") (simp_all add: count_latency_def Let_def)
qed simp

lemma bound_rows_nth:
  assumes "length counts \<ge> length bs" and "k < length bs"
  shows "bound_rows lower bs counts ! k =
     (show_u64 (if k = 0 then lower else bs ! (k - 1) + 1) @ ''..'' @ show_u64 (bs ! k) @ '' us'',
      counts ! k)"
  using assms
proof (induction lower bs counts arbitrary: k rule: bound_rows.induct)
  case (1 lower upper uppers count counts)
  then show ?case by (cases k; cases "k - 1") (simp_all add: nth_Cons')
qed auto

lemma bound_rows_length: "length bs \<le> length counts \<Longrightarrow> length (bound_rows lower bs counts) = length bs"
  by (induction lower bs counts rule: bound_rows.induct) auto

lemma fold_counts_length [simp]: "length (fold count_latency ls counts) = length counts"
  by (induction ls arbitrary: counts) (simp_all add: count_latency_def Let_def)

lemma bounds_sorted: "sorted bounds" "length bounds = 13" "- 1 \<notin> set bounds"
  by (simp_all add: bounds_def word_le_nat_alt word_unat_eq_iff unsigned_minus_1_eq_mask mask_eq_exp_minus_1)

text \<open>
  A row of the histogram counts the latencies in the range that its label names; the last
  row counts those above the largest bound.
\<close>

theorem histogram_counts:
  "length (histogram ls) = 14
   \<and> (\<forall>k < 13. histogram ls ! k =
        (let lower = (if k = 0 then 0 else bounds ! (k - 1) + 1); upper = bounds ! k
         in (show_u64 lower @ ''..'' @ show_u64 upper @ '' us'',
             of_nat (length (filter (\<lambda>l. lower \<le> duration_us l \<and> duration_us l \<le> upper) ls)))))
   \<and> histogram ls ! 13 =
       (''>1000000 us'', of_nat (length (filter (\<lambda>l. 1000000 < duration_us l) ls)))"
proof -
  let ?zero = "replicate (length bounds + 1) 0 :: usize list"
  let ?counts = "fold count_latency ls ?zero"
  have count: "?counts ! k = of_nat (length (filter (\<lambda>l. bucket (duration_us l) = k) ls))" if "k < 14" for k
    using fold_counts [of k ?zero ls] that bounds_sorted(2) by (simp del: replicate_Suc)
  have bucket: "bucket u = k \<longleftrightarrow> (k = 0 \<or> bounds ! (k - 1) < u) \<and> (k = 13 \<or> u \<le> bounds ! k)"
    if "k < 14" for k u
    using position_sorted [of bounds k u] that bounds_sorted by (simp add: bucket_def)
  have "bucket u = k \<longleftrightarrow> (if k = 0 then 0 else bounds ! (k - 1) + 1) \<le> u \<and> u \<le> bounds ! k"
    if "k < 13" for k u
  proof -
    have "bounds ! (k - 1) \<noteq> - 1" using that bounds_sorted(2,3) by (metis less_imp_diff_less nth_mem)
    then show ?thesis using that bucket [of k u] by (simp add: add_one_le_iff)
  qed
  moreover have "bucket u = 13 \<longleftrightarrow> 1000000 < u" for u
    using bucket [of 13 u] by (simp add: bounds_def)
  moreover have "show_u64 (bounds ! 12) = ''1000000''"
    by (simp add: bounds_def show_u64_def dec_string.simps digit_char_def)
  ultimately show ?thesis
    using count bound_rows_nth [of bounds ?counts _ 0] bound_rows_length [of bounds ?counts 0]
    by (simp add: histogram_def Let_def bounds_sorted(2) nth_append del: replicate_Suc)
qed

end
