(* ===== verification/Log_Writer.thy ===== *)
theory Log_Writer imports Client_Runs
begin

text \<open>
  The trait \<open>RaftLogWriter\<close> of \<open>src/api/raft_log_writer.rs\<close> and its implementation by \<open>RaftLog\<close>.
  \<open>growing_writer\<close> is what a client relies on that only adds to the log: the entries and the
  state after each call that succeeds, while the flush worker goes on in between. \<open>RaftLog\<close>
  over any lawful WAL is such a writer.
\<close>

section \<open>The trait\<close>

record ('l, 'p, 'v, 'u, 'g, 'cb, 's) raft_log_writer =
  w_save_user_data :: "'u option \<Rightarrow> 's \<Rightarrow> ('g, 's) call"
  w_save_vote :: "'v \<Rightarrow> 's \<Rightarrow> ('g, 's) call"
  w_append :: "('l \<times> 'p) list \<Rightarrow> 's \<Rightarrow> ('g, 's) call"
  w_truncate :: "u64 \<Rightarrow> 's \<Rightarrow> ('g, 's) call"
  w_purge :: "'l \<Rightarrow> 's \<Rightarrow> ('g, 's) call"
  w_commit :: "'l \<Rightarrow> 's \<Rightarrow> ('g, 's) call"
  w_flush :: "bool \<Rightarrow> 'cb option \<Rightarrow> 's \<Rightarrow> (unit, 's) call"

definition log_writer ::
  "('l::linorder, 'p, 'v::order) raft_types \<Rightarrow> ('l, 'p, 'v, 'u, 'w, 'c, 'g, 'cb) raft_wal
     \<Rightarrow> ('l, 'p, 'v, 'u, 'g, 'cb, ('l, 'p, 'v, 'u, 'w, 'c, 'g, 'wc) raft_log) raft_log_writer" where
  "log_writer T W =
     \<lparr>w_save_user_data = save_user_data T W, w_save_vote = save_vote T W,
      w_append = rl_append T W, w_truncate = rl_truncate T W, w_purge = rl_purge T W,
      w_commit = rl_commit T W, w_flush = rl_flush W\<rparr>"

lemma log_writer_simps [simp]:
  "w_save_user_data (log_writer T W) = save_user_data T W"
  "w_save_vote (log_writer T W) = save_vote T W"
  "w_append (log_writer T W) = rl_append T W"
  "w_truncate (log_writer T W) = rl_truncate T W"
  "w_purge (log_writer T W) = rl_purge T W"
  "w_commit (log_writer T W) = rl_commit T W"
  "w_flush (log_writer T W) = rl_flush W"
  by (simp_all add: log_writer_def)

section \<open>Loops\<close>

text \<open>A \<open>for\<close> loop with \<open>?\<close> in its body; what each round adds, the loop adds in order.\<close>

fun for_each :: "('i \<Rightarrow> 's \<Rightarrow> (unit, 's) call) \<Rightarrow> 'i list \<Rightarrow> 's \<Rightarrow> (unit, 's) call" where
  "for_each f [] s = (Ok (), s)"
| "for_each f (i # is) s = sbind (f i s) (\<lambda>_ s. for_each f is s)"

lemma for_each_adds:
  assumes "for_each f is s = (Ok (), s')" and "I xs s"
    and "\<And>i xs s s'. i \<in> set is \<Longrightarrow> I xs s \<Longrightarrow> f i s = (Ok (), s') \<Longrightarrow> I (xs @ [g i]) s'"
  shows "I (xs @ map g is) s'"
  using assms
proof (induction "is" arbitrary: xs s)
  case (Cons i "is")
  from Cons.prems(1) obtain s1 where "f i s = (Ok (), s1)" "for_each f is s1 = (Ok (), s')"
    by (auto simp: sbind_Ok_iff)
  with Cons.IH [of s1 "xs @ [g i]"] Cons.prems(2,3) show ?case by simp
qed simp

section \<open>What a client that only adds relies on\<close>

text \<open>
  \<open>stands st es s\<close>: the store \<open>s\<close> has the state \<open>st\<close> and the entries \<open>es\<close>; \<open>meanwhile s s'\<close>:
  others may have taken it from \<open>s\<close> to \<open>s'\<close>.
\<close>

locale growing_writer =
  fixes T :: "('l::linorder, 'p, 'v::order) raft_types"
    and Wr :: "('l, 'p, 'v, 'u, 'g, 'cb, 's) raft_log_writer"
    and stands :: "('l, 'v, 'u) raft_log_state \<Rightarrow> ('l \<times> 'p) list \<Rightarrow> 's \<Rightarrow> bool"
    and meanwhile :: "'s \<Rightarrow> 's \<Rightarrow> bool"
  assumes user_data_law: "stands st es s \<Longrightarrow> w_save_user_data Wr u s = (Ok g, s') \<Longrightarrow>
      stands (st\<lparr>st_user_data := u\<rparr>) es s'"
    and vote_law: "stands st es s \<Longrightarrow> w_save_vote Wr v s = (Ok g, s') \<Longrightarrow>
      stands (st\<lparr>st_vote := Some v\<rparr>) es s'"
    and append_law: "stands st es s \<Longrightarrow> has_next T (Some l) \<Longrightarrow> w_append Wr [(l, p)] s = (Ok g, s') \<Longrightarrow>
      stands (st\<lparr>st_last := Some l\<rparr>) (es @ [(l, p)]) s'"
    and commit_law: "stands st es s \<Longrightarrow> w_commit Wr l s = (Ok g, s') \<Longrightarrow>
      stands (st\<lparr>st_committed := Some l\<rparr>) es s'"
    and flush_law: "stands st es s \<Longrightarrow> w_flush Wr sync cb s = (r, s') \<Longrightarrow> stands st es s'"
    and meanwhile_law: "stands st es s \<Longrightarrow> meanwhile s s' \<Longrightarrow> stands st es s'"
begin

text \<open>A loop whose rounds append one entry each, and do what else leaves the log alone.\<close>

lemma loop_appends:
  assumes run: "for_each f is s = (Ok (), s')" and start: "stands st es s"
    and round: "\<And>i s s'. i \<in> set is \<Longrightarrow> f i s = (Ok (), s') \<Longrightarrow>
       has_next T (Some (fst (x i))) \<and>
       (\<exists>g s1. w_append Wr [x i] s = (Ok g, s1)
         \<and> (\<forall>st es. stands st es s1 \<longrightarrow> stands st es s'))"
  shows "\<exists>st'. stands st' (es @ map x is) s'"
proof (rule for_each_adds [where I = "\<lambda>es s. \<exists>st. stands st es s", OF run])
  show "\<exists>st. stands st es s" using start by blast
next
  fix i es s s'
  assume "i \<in> set is" and "\<exists>st. stands st es s" and "f i s = (Ok (), s')"
  with round [OF this(1,3)] append_law [of _ es s "fst (x i)" "snd (x i)"]
  show "\<exists>st. stands st (es @ [x i]) s'" by (metis prod.collapse)
qed

end

section \<open>Appending while the worker runs\<close>

text \<open>
  The worker calls back with checkpoints of the store; in a program that never truncates none
  of them is ahead of its log. \<open>caught_up\<close>: nothing above the last entry may be evicted.
\<close>

definition caught_up :: "('l::linorder, 'p, 'v, 'u, 'w, 'c, 'g, 'wc) raft_log \<Rightarrow> bool" where
  "caught_up s \<longleftrightarrow> pc_last_evictable (sm_cache (rl_sm s)) \<le> st_last (log_state s)"

definition calm_step ::
  "('l::linorder, 'p, 'v, 'u, 'w, 'c::linorder, 'g, 'cb) raft_wal
     \<Rightarrow> ('w \<Rightarrow> 'c \<Rightarrow> 'g \<Rightarrow> ('l, 'p, 'v, 'u) raft_record option) \<Rightarrow> ('w \<Rightarrow> 'c \<Rightarrow> bool)
     \<Rightarrow> ('w \<Rightarrow> ('c \<times> ('l, 'v, 'u) raft_log_state) list) \<Rightarrow> ('w \<Rightarrow> bool)
     \<Rightarrow> ('l, 'p, 'v, 'u, 'w, 'c, 'g, 'wc) raft_log
     \<Rightarrow> ('l, 'p, 'v, 'u, 'w, 'c, 'g, 'wc) raft_log \<Rightarrow> bool" where
  "calm_step W rec_at readable closed wal_ok s s' \<longleftrightarrow>
     worker_step W rec_at readable closed wal_ok s s' \<and> (caught_up s \<longrightarrow> caught_up s')"

definition calm ::
  "('l::linorder, 'p, 'v, 'u, 'w, 'c::linorder, 'g, 'cb) raft_wal
     \<Rightarrow> ('w \<Rightarrow> 'c \<Rightarrow> 'g \<Rightarrow> ('l, 'p, 'v, 'u) raft_record option) \<Rightarrow> ('w \<Rightarrow> 'c \<Rightarrow> bool)
     \<Rightarrow> ('w \<Rightarrow> ('c \<times> ('l, 'v, 'u) raft_log_state) list) \<Rightarrow> ('w \<Rightarrow> bool)
     \<Rightarrow> (('l, 'p, 'v, 'u, 'w, 'c, 'g, 'wc) raft_log \<Rightarrow> ('l, 'p, 'v, 'u, 'w, 'c, 'g, 'wc) raft_log)
     \<Rightarrow> bool" where
  "calm W rec_at readable closed wal_ok pause \<longleftrightarrow>
     (\<forall>s. (calm_step W rec_at readable closed wal_ok)\<^sup>*\<^sup>* s (pause s))"

text \<open>What a store over a lawful WAL stands for.\<close>

definition stands_in ::
  "('l::linorder, 'p, 'v::order) raft_types \<Rightarrow> ('l, 'p, 'v, 'u, 'w, 'c::linorder, 'g, 'cb) raft_wal
     \<Rightarrow> ('w \<Rightarrow> 'c \<Rightarrow> 'g \<Rightarrow> ('l, 'p, 'v, 'u) raft_record option) \<Rightarrow> ('w \<Rightarrow> 'c \<Rightarrow> bool)
     \<Rightarrow> ('w \<Rightarrow> ('c \<times> ('l, 'v, 'u) raft_log_state) list) \<Rightarrow> ('w \<Rightarrow> bool)
     \<Rightarrow> ('l, 'v, 'u) raft_log_state \<Rightarrow> ('l \<times> 'p) list
     \<Rightarrow> ('l, 'p, 'v, 'u, 'w, 'c, 'g, 'wc) raft_log \<Rightarrow> bool" where
  "stands_in T W rec_at readable closed wal_ok st es s \<longleftrightarrow>
     rl_inv T W rec_at readable closed wal_ok s \<and> log_holds rec_at s es \<and> caught_up s
     \<and> log_state s = st"

context raft_wal
begin

lemma write_stands:
  assumes "stands_in T W rec_at readable closed wal_ok st es s" and "write_fits T s rec"
    and "append_and_apply T W rec s = (Ok g, s')" and "st_last (state_effect st rec) = st_last st"
    and "log_effect rec es = es"
  shows "stands_in T W rec_at readable closed wal_ok (state_effect st rec) es s'"
  using write_done [OF _ _ assms(2,3), of es] assms(1,4,5) by (auto simp: stands_in_def caught_up_def)

lemma append_stands:
  assumes log: "stands_in T W rec_at readable closed wal_ok st es s" and "has_next T (Some l)"
    and run: "rl_append T W [(l, p)] s = (Ok g, s')"
  shows "stands_in T W rec_at readable closed wal_ok (st\<lparr>st_last := Some l\<rparr>) (es @ [(l, p)]) s'"
proof -
  from log have inv: "rl_inv T W rec_at readable closed wal_ok s" and holds: "log_holds rec_at s es"
    and up: "caught_up s" and st: "log_state s = st" by (simp_all add: stands_in_def)
  have "sm_check T (rl_sm s) (Action (Append l p)) = Ok ()"
  proof (cases rule: unit_outcome_cases [of "sm_check T (rl_sm s) (Action (Append l p))"])
    case 1
    then show ?thesis .
  qed (use run in \<open>simp_all add: append_and_apply_def checked_def\<close>)
  then have above: "st_last (log_state s) < Some l"
    by (simp add: sm_check_def check_append_Ok log_state_def)
  with up assms(2) have "\<forall>x \<in> set [(l, p)]. appendable T s (fst x)"
    by (auto simp: appendable_def evictable_def caught_up_def)
  from append_done [OF inv holds this run] up above st show ?thesis
    by (simp add: stands_in_def caught_up_def)
qed

lemma calm_stands:
  assumes "(calm_step W rec_at readable closed wal_ok)\<^sup>*\<^sup>* s s'"
    and "stands_in T W rec_at readable closed wal_ok st es s"
  shows "stands_in T W rec_at readable closed wal_ok st es s'"
  using assms
proof (induction rule: rtranclp_induct)
  case (step s1 s2)
  then have "(worker_step W rec_at readable closed wal_ok)\<^sup>*\<^sup>* s1 s2"
    by (simp add: calm_step_def r_into_rtranclp)
  with worker_keeps [OF this, of T es] step show ?case by (simp add: stands_in_def calm_step_def)
qed

lemma fresh_stands:
  assumes "wal_ok w"
  shows "stands_in T W rec_at readable closed wal_ok default_state []
     \<lparr>rl_config = cfg, rl_wal = w, rl_sm = sm_new cfg', rl_removed = [], rl_access = a\<rparr>"
  using fresh_inv [of wal_ok w T W rec_at readable closed cfg cfg' a, OF assms]
  by (simp add: stands_in_def log_holds_def caught_up_def new_machine log_state_def)

end

sublocale raft_wal \<subseteq> writer: growing_writer T "log_writer T W"
  "stands_in T W rec_at readable closed wal_ok" "(calm_step W rec_at readable closed wal_ok)\<^sup>*\<^sup>*" for T
proof (unfold_locales, goal_cases)
  case (1 st es s u g s')
  let ?rec = "Checkpoint (st\<lparr>st_user_data := u\<rparr>) :: ('l, 'p, 'v, 'u) raft_record"
  from 1(1) have "sm_inv T (rl_sm s)" "log_state s = st" by (simp_all add: stands_in_def rl_inv_def)
  then have "write_fits T s ?rec"
    by (simp add: write_fits_def checkpoint_point_def sm_inv_def log_state_def)
  from write_stands [OF 1(1) this] 1(2) \<open>log_state s = st\<close> show ?case
    by (simp add: save_user_data_def sm_checkpoint_def log_state_def)
next
  case (2 st es s v g s')
  have "write_fits T s (Action (SaveVote v))" by (simp add: write_fits_def)
  from write_stands [OF 2(1) this] 2(2) show ?case by (simp add: save_vote_def)
next
  case (3 st es s l p g s')
  then show ?case using append_stands by simp
next
  case (4 st es s l g s')
  have "write_fits T s (Action (Commit l))" by (simp add: write_fits_def)
  from write_stands [OF 4(1) this] 4(2) show ?case by (simp add: rl_commit_def)
next
  case (5 st es s sync cb r s')
  then show ?case using flush_inv_holds [of T s es sync cb r s'] flush_sm [of sync cb s r s']
    by (auto simp: stands_in_def caught_up_def log_state_def)
next
  case (6 st es s s')
  then show ?case using calm_stands by blast
qed

end
