(* ===== verification/Bench_Runs.thy ===== *)
theory Bench_Runs imports Flush_Bench Log_Writer Dump_Properties
begin

text \<open>
  The benchmark programs on a store: \<open>run_case\<close> and the cases of \<open>main\<close> in
  \<open>examples/flush_batch_bench.rs\<close>, and the loop of \<open>src/bin/bench.rs\<close>. What they print and
  measure is left out; the time a case took is a parameter.

  While they run the flush worker goes on: \<open>pause\<close> is what it does to the store between two
  calls, and \<open>wait\<close> what happens until a callback is received.
\<close>

section \<open>The flush batch benchmark\<close>

type_synonym bytes_payload = "u8 list"
type_synonym ('w, 'c, 'g, 'wc) bench_log =
  "(test_id, bytes_payload, u64 \<times> u64, string, 'w, 'c, 'g, 'wc) raft_log"
type_synonym ('w, 'c, 'g, 'cb) bench_wal =
  "(test_id, bytes_payload, u64 \<times> u64, string, 'w, 'c, 'g, 'cb) raft_wal"

definition bench_types :: "(test_id, bytes_payload, u64 \<times> u64) raft_types" where
  "bench_types =
     \<lparr>log_index = snd, payload_size = (\<lambda>p. of_nat (length p)),
      dbg_log_id = dbg_pair, dbg_vote = dbg_pair\<rparr>"

type_synonym ('g, 'cb, 's) bench_writer =
  "(test_id, bytes_payload, u64 \<times> u64, string, 'g, 'cb, 's) raft_log_writer"

text \<open>One submission: \<open>callback i\<close> is the \<open>BenchCallback\<close> of operation \<open>i\<close>.\<close>

definition submit_one ::
  "('g, 'cb, 's) bench_writer \<Rightarrow> (usize \<Rightarrow> 'cb) \<Rightarrow> ('s \<Rightarrow> 's) \<Rightarrow> bytes_payload \<Rightarrow> usize \<Rightarrow> 's
     \<Rightarrow> (unit, 's) call" where
  "submit_one Wr callback pause payload i log =
     sbind (w_append Wr [((1, i), payload)] log) (\<lambda>_ log.
     sbind (w_flush Wr True (Some (callback i)) (pause log)) (\<lambda>_ log. (Ok (), pause log)))"

definition submit ::
  "('g, 'cb, 's) bench_writer \<Rightarrow> (usize \<Rightarrow> 'cb) \<Rightarrow> ('s \<Rightarrow> 's) \<Rightarrow> usize \<Rightarrow> usize \<Rightarrow> 's
     \<Rightarrow> (unit, 's) call" where
  "submit Wr callback pause operations payload_bytes =
     for_each (submit_one Wr callback pause (replicate (unat payload_bytes) 0x78))
       (map of_nat [0..<unat operations])"

record 'fm case_result =
  res_name :: string
  res_wait :: nat
  res_batch_size :: usize
  res_operations :: usize
  res_payload_bytes :: usize
  res_elapsed :: nat
  res_latencies :: "nat list"
  res_metrics :: 'fm

text \<open>
  \<open>events log\<close> are the callbacks that arrive once everything has been submitted;
  \<open>wal_config dir wait batch_size\<close> is the configuration of the WAL with the limits of the
  program. The store, dropped at the end, is returned too.
\<close>

definition run_case ::
  "('wc \<Rightarrow> (test_id, bytes_payload, u64 \<times> u64, string, 'c, 'g) state_machine
      \<Rightarrow> ('w, io_error) outcome \<times> (test_id, bytes_payload, u64 \<times> u64, string, 'c, 'g) state_machine)
     \<Rightarrow> ('w, 'c, 'g, 'cb) bench_wal \<Rightarrow> ('w, (test_id, u64 \<times> u64, string) raft_log_state, 'cs, 'fm) wal_stats
     \<Rightarrow> (nat \<Rightarrow> usize \<Rightarrow> 'wc) \<Rightarrow> (usize \<Rightarrow> 'cb)
     \<Rightarrow> (('w, 'c, 'g, 'wc) bench_log \<Rightarrow> ('w, 'c, 'g, 'wc) bench_log)
     \<Rightarrow> (('w, 'c, 'g, 'wc) bench_log \<Rightarrow> callback_event list) \<Rightarrow> nat
     \<Rightarrow> string \<Rightarrow> nat \<Rightarrow> usize \<Rightarrow> usize \<Rightarrow> usize
     \<Rightarrow> ('fm case_result \<times> ('w, 'c, 'g, 'wc) bench_log, string) outcome" where
  "run_case wal_open W S wal_config callback pause events elapsed name wait batch_size
       operations payload_bytes =
     and_then (map_err err_msg (rl_open wal_open W
         \<lparr>cfg_wal = wal_config wait batch_size, cfg_log_cache_max_items = Some (1024 * 1024),
          cfg_log_cache_capacity = Some (1024 * 1024 * 1024)\<rparr>)) (\<lambda>log.
     case submit (log_writer bench_types W) callback pause operations payload_bytes log of (submitted, log) \<Rightarrow>
     and_then (map_err err_msg submitted) (\<lambda>_.
     and_then (receive_all operations (events log)) (\<lambda>latencies.
     and_then (map_err err_msg (wait_worker_idle S log)) (\<lambda>_.
       Ok (\<lparr>res_name = name, res_wait = wait, res_batch_size = batch_size,
            res_operations = operations, res_payload_bytes = payload_bytes,
            res_elapsed = elapsed, res_latencies = latencies,
            res_metrics = flush_metrics (rl_stat S log)\<rparr>, log)))))"

text \<open>The cases of \<open>main\<close>, for every batch size and every wait; the first error ends them.\<close>

definition case_name :: "u64 \<Rightarrow> usize \<Rightarrow> string" where
  "case_name wait_us batch_size =
     ''wait_'' @ show_u64 wait_us @ ''us_batch_'' @ show_u64 batch_size"

definition run_cases ::
  "(string \<Rightarrow> nat \<Rightarrow> usize \<Rightarrow> usize \<Rightarrow> usize \<Rightarrow> ('r, string) outcome) \<Rightarrow> options
     \<Rightarrow> ('r list, string) outcome" where
  "run_cases run opts =
     collect_results (concat (map (\<lambda>batch_size. map (\<lambda>wait_us.
         run (case_name wait_us batch_size) (unat wait_us * 1000) batch_size
           (opt_operations opts) (opt_payload_bytes opts))
       (opt_wait_us opts)) (opt_batch_sizes opts)))"

section \<open>The benchmark binary\<close>

definition bench_one ::
  "(test_id, string, u64 \<times> u64, string, 'g, 'cb, 's) raft_log_writer \<Rightarrow> 'cb \<Rightarrow> 's waiting
     \<Rightarrow> u64 \<Rightarrow> 's \<Rightarrow> (unit, 's) call" where
  "bench_one Wr tx wait index rl =
     sbind (w_append Wr [((1, index), ''foo'')] rl) (\<lambda>_ rl.
     sbind (w_flush Wr True (Some tx) rl) (\<lambda>_ rl.
       recv_unwrap (wait rl)))"

definition test_bench_raft_log ::
  "('wc \<Rightarrow> (test_id, string, u64 \<times> u64, string, 'c, 'g) state_machine
      \<Rightarrow> ('w, io_error) outcome \<times> (test_id, string, u64 \<times> u64, string, 'c, 'g) state_machine)
     \<Rightarrow> (test_id, string, u64 \<times> u64, string, 'w, 'c, 'g, 'cb) raft_wal \<Rightarrow> 'cb
     \<Rightarrow> (test_id, string, u64 \<times> u64, string, 'w, 'c, 'g, 'wc) raft_log waiting \<Rightarrow> 'wc
     \<Rightarrow> (unit, io_error) outcome
         \<times> (test_id, string, u64 \<times> u64, string, 'w, 'c, 'g, 'wc) raft_log option" where
  "test_bench_raft_log wal_open W tx wait wal_config =
     (case rl_open wal_open W
         \<lparr>cfg_wal = wal_config, cfg_log_cache_max_items = Some (1024 * 1024),
          cfg_log_cache_capacity = Some (1024 * 1024 * 1024)\<rparr> of
        Ok rl \<Rightarrow>
          (case for_each (bench_one (log_writer test_types W) tx wait) (map of_nat [0..<1024 * 1024]) rl of
             (r, rl) \<Rightarrow> (r, Some rl))
      | Err e \<Rightarrow> (Err e, None)
      | Panic \<Rightarrow> (Panic, None))"

section \<open>What the benchmarks leave\<close>

lemma small_has_next: "unat i < 2 ^ LENGTH(64) - 1 \<Longrightarrow> i \<noteq> (- 1 :: u64)"
  by (auto simp: unsigned_minus_1_eq_mask mask_eq_exp_minus_1)

lemma numbers_below:
  assumes "i \<in> set (map of_nat [0..<n] :: u64 list)" and "n < 2 ^ LENGTH(64)"
  shows "i \<noteq> - 1"
  using assms by (intro small_has_next) (auto simp: unsigned_of_nat take_bit_nat_eq_self)

context growing_writer
begin

text \<open>A callback is flushed after each entry, and others go on before and after that.\<close>

lemma submit_stands:
  assumes run: "for_each (\<lambda>i log. sbind (w_append Wr [x i] log) (\<lambda>_ log.
       sbind (w_flush Wr True (Some (callback i)) (pause log)) (\<lambda>_ log. (Ok (), pause log)))) is s = (Ok (), s')"
    and "stands st es s" and pause: "\<And>s. meanwhile s (pause s)"
    and "\<And>i. i \<in> set is \<Longrightarrow> has_next T (Some (fst (x i)))"
  shows "\<exists>st'. stands st' (es @ map x is) s'"
proof (rule loop_appends [OF run])
  fix i s s' assume i: "i \<in> set is"
    and "sbind (w_append Wr [x i] s) (\<lambda>_ log.
       sbind (w_flush Wr True (Some (callback i)) (pause log)) (\<lambda>_ log. (Ok (), pause log))) = (Ok (), s')"
  then obtain g s1 s2 where app: "w_append Wr [x i] s = (Ok g, s1)"
    and flush: "w_flush Wr True (Some (callback i)) (pause s1) = (Ok (), s2)" and s': "s' = pause s2"
    by (auto simp: sbind_Ok_iff)
  have "stands st es s'" if "stands st es s1" for st es
    unfolding s' using that flush pause by (meson flush_law meanwhile_law)
  with app i assms(4) show "has_next T (Some (fst (x i)))
      \<and> (\<exists>g s1. w_append Wr [x i] s = (Ok g, s1) \<and> (\<forall>st es. stands st es s1 \<longrightarrow> stands st es s'))"
    by blast
qed (fact assms(2))

end

context raft_wal
begin

lemmas writer_submits = writer.submit_stands
lemmas writer_loop = writer.loop_appends
lemmas writer_flush = writer.flush_law
lemmas writer_meanwhile = writer.meanwhile_law

end

lemma submit_log:
  assumes laws: "raft_wal W rec_at readable closed wal_ok"
    and calm: "calm W rec_at readable closed wal_ok pause"
    and start: "stands_in bench_types W rec_at readable closed wal_ok st [] log"
    and run: "submit (log_writer bench_types W) callback pause operations payload_bytes log = (Ok (), log')"
  shows "log_holds rec_at log'
     (map (\<lambda>i. ((1, i), replicate (unat payload_bytes) 0x78)) (map of_nat [0..<unat operations]))"
proof -
  have "unat operations < 2 ^ LENGTH(64)" by (rule unsigned_less)
  then have "has_next bench_types (Some (1, i))" if "i \<in> set (map of_nat [0..<unat operations])" for i
    using numbers_below [OF that] by (simp add: bench_types_def)
  from raft_wal.writer_submits [OF laws run [unfolded submit_def submit_one_def] start _ ] this calm
  show ?thesis by (fastforce simp: stands_in_def calm_def)
qed

text \<open>The benchmark binary leaves \<open>1024 * 1024\<close> entries when it ends without an error.\<close>

lemma test_bench_log:
  assumes laws: "raft_wal W rec_at readable closed wal_ok" and ok: "wal_ok w"
    and fresh: "\<And>sm. wal_open wal_config sm = (Ok w, sm)"
    and waits: "calm W rec_at readable closed wal_ok (\<lambda>s. snd (wait s))"
    and run: "test_bench_raft_log wal_open W tx wait wal_config = (Ok (), Some rl)"
  shows "log_holds rec_at rl (map (\<lambda>i. ((1, i), ''foo'')) (map of_nat [0..<1024 * 1024]))"
proof -
  let ?cfg = "\<lparr>cfg_wal = wal_config, cfg_log_cache_max_items = Some (1024 * 1024),
      cfg_log_cache_capacity = Some (1024 * 1024 * 1024)\<rparr>"
  let ?s0 = "\<lparr>rl_config = ?cfg, rl_wal = w, rl_sm = sm_new ?cfg, rl_removed = [],
      rl_access = \<lparr>cache_hit = 0, cache_miss = 0\<rparr>\<rparr>"
  let ?Wr = "log_writer test_types W"
  let ?stands = "stands_in test_types W rec_at readable closed wal_ok"
  have "rl_open wal_open W ?cfg = Ok ?s0"
    by (simp add: rl_open_def fresh buffer_removable_chunks_def log_state_def new_machine default_state_def)
  with run have loop: "for_each (bench_one ?Wr tx wait) (map of_nat [0..<1024 * 1024]) ?s0 = (Ok (), rl)"
    unfolding test_bench_raft_log_def by (simp split: prod.splits)
  have "\<exists>st'. ?stands st' ([] @ map (\<lambda>i. ((1, i), ''foo'')) (map of_nat [0..<1024 * 1024])) rl"
  proof (rule raft_wal.writer_loop [OF laws loop raft_wal.fresh_stands [OF laws ok]])
    fix i s s'
    assume i: "i \<in> set (map of_nat [0..<1024 * 1024])" and "bench_one ?Wr tx wait i s = (Ok (), s')"
    then obtain g s1 s2 where app: "w_append ?Wr [((1, i), ''foo'')] s = (Ok g, s1)"
      and flush: "w_flush ?Wr True (Some tx) s1 = (Ok (), s2)" and wait: "wait s2 = (Completed, s')"
      by (auto simp: bench_one_def sbind_Ok_iff recv_unwrap_Ok simp del: rl_append.simps)
    have "(calm_step W rec_at readable closed wal_ok)\<^sup>*\<^sup>* s2 s'"
      using waits wait unfolding calm_def by (metis snd_conv)
    then have "?stands st es s'" if "?stands st es s1" for st es
      using that flush raft_wal.writer_flush [OF laws] raft_wal.writer_meanwhile [OF laws] by blast
    moreover have "has_next test_types (Some (1, i))" using numbers_below [OF i] by simp
    ultimately show "has_next test_types (Some (fst ((1, i), ''foo'')))
        \<and> (\<exists>g s1. w_append ?Wr [((1, i), ''foo'')] s = (Ok g, s1)
            \<and> (\<forall>st es. ?stands st es s1 \<longrightarrow> ?stands st es s'))"
      using app by auto
  qed
  then show ?thesis by (auto simp: stands_in_def)
qed

text \<open>C35: Functional. When a case of the benchmark ends without an error, its log holds one entry
  per operation, in order and with the payload of the case, whatever the flush worker did in
  between; and each operation's callback has been received exactly once, without an error, the
  latencies of the result being those of these callbacks in the order of arrival.\<close>

theorem run_case_complete:
  assumes laws: "raft_wal W rec_at readable closed wal_ok" and ok: "wal_ok w"
    and fresh: "\<And>sm. wal_open (wal_config wait batch_size) sm = (Ok w, sm)"
    and calm: "calm W rec_at readable closed wal_ok pause"
    and run: "run_case wal_open W S wal_config callback pause events elapsed name wait batch_size
       operations payload_bytes = Ok (result, log)"
  shows "log_holds rec_at log
       (map (\<lambda>i. ((1, i), replicate (unat payload_bytes) 0x78)) (map of_nat [0..<unat operations]))
     \<and> (\<exists>es rest. events log = es @ rest \<and> length es = unat operations
          \<and> (\<forall>e \<in> set es. ev_error e = None)
          \<and> distinct (map ev_id es) \<and> ev_id ` set es = {..<operations}
          \<and> res_latencies result = map ev_latency es)"
proof -
  let ?cfg = "\<lparr>cfg_wal = wal_config wait batch_size, cfg_log_cache_max_items = Some (1024 * 1024),
      cfg_log_cache_capacity = Some (1024 * 1024 * 1024)\<rparr>"
  let ?s0 = "\<lparr>rl_config = ?cfg, rl_wal = w, rl_sm = sm_new ?cfg, rl_removed = [],
      rl_access = \<lparr>cache_hit = 0, cache_miss = 0\<rparr>\<rparr>"
  have "rl_open wal_open W ?cfg = Ok ?s0"
    by (simp add: rl_open_def fresh buffer_removable_chunks_def log_state_def new_machine default_state_def)
  with run have submitted: "submit (log_writer bench_types W) callback pause operations payload_bytes ?s0 = (Ok (), log)"
    and received: "receive_all operations (events log) = Ok (res_latencies result)"
    by (auto simp: run_case_def and_then_eq_Ok split: prod.splits)
  from submit_log [OF laws calm raft_wal.fresh_stands [OF laws ok] submitted]
  show ?thesis using received by (simp add: receive_each_once)
qed

type_synonym bench_record = "(test_id, bytes_payload, u64 \<times> u64, string) raft_record"

definition bench_wal :: "(bench_record, test_state) mem_wal" where
  "bench_wal = mem_new 5 [Checkpoint default_state]"

abbreviation bench_api ::
  "((bench_record, test_state) mem_wal, nat, nat, unit, bench_record, test_state) wal_api" where
  "bench_api \<equiv> mem_api Checkpoint"

definition two_callbacks :: "callback_event list" where
  "two_callbacks = [\<lparr>ev_id = 1, ev_latency = 7, ev_error = None\<rparr>,
      \<lparr>ev_id = 0, ev_latency = 9, ev_error = None\<rparr>]"

theorem run_case_complete_witness:
  "\<exists>result log. run_case (\<lambda>_ sm. (Ok bench_wal, sm)) bench_api no_stats (\<lambda>_ _. ()) (\<lambda>_. ())
       (\<lambda>s. s) (\<lambda>_. two_callbacks) 16 ''case'' 0 1 2 1 = Ok (result, log)
     \<and> log_holds mem_rec_at log [((1, 0), [0x78]), ((1, 1), [0x78])]
     \<and> res_latencies result = [7, 9]"
proof -
  let ?run = "run_case (\<lambda>_ sm. (Ok bench_wal, sm)) bench_api no_stats (\<lambda>_ _. ()) (\<lambda>_. ())
       (\<lambda>s. s) (\<lambda>_. two_callbacks) 16 ''case'' 0 1 2 1"
  have laws: "raft_wal bench_api mem_rec_at mem_readable mw_closed mem_ok"
    unfolding raft_wal_def by (rule mem.chunked_wal_axioms)
  have ok: "mem_ok bench_wal" by (simp add: bench_wal_def)
  have calm: "calm bench_api mem_rec_at mem_readable mw_closed mem_ok (\<lambda>s. s)"
    by (simp add: calm_def)
  have two: "map of_nat [0..<unat (2 :: usize)] = [0, 1 :: usize]" by (simp add: upt_rec)
  have one: "replicate (unat (1 :: usize)) x = [x]" for x :: u8 by simp
  let ?cfg = "\<lparr>cfg_wal = (), cfg_log_cache_max_items = Some (1024 * 1024),
      cfg_log_cache_capacity = Some (1024 * 1024 * 1024)\<rparr>"
  let ?s0 = "\<lparr>rl_config = ?cfg, rl_wal = bench_wal, rl_sm = sm_new ?cfg, rl_removed = [],
      rl_access = \<lparr>cache_hit = 0, cache_miss = 0\<rparr>\<rparr>"
  have "is_ok (fst (submit (log_writer bench_types bench_api) (\<lambda>_. ()) (\<lambda>s. s) 2 1 ?s0))"
    unfolding submit_def two one
    by (simp add: submit_one_def bench_types_def bench_wal_def run_simps cong: sbind_first)
  then obtain log where "submit (log_writer bench_types bench_api) (\<lambda>_. ()) (\<lambda>s. s) 2 1 ?s0 = (Ok (), log)"
    by (cases "submit (log_writer bench_types bench_api) (\<lambda>_. ()) (\<lambda>s. s) 2 1 ?s0") (auto simp: is_ok_conv)
  moreover have "rl_open (\<lambda>_ sm. (Ok bench_wal, sm)) bench_api ?cfg = Ok ?s0"
    by (simp add: rl_open_def buffer_removable_chunks_def log_state_def new_machine default_state_def)
  moreover have "receive_all 2 two_callbacks = Ok [7, 9]"
    by code_simp
  ultimately have "is_ok ?run"
    by (simp add: run_case_def wait_worker_idle_def no_stats_def)
  then obtain result log where run: "?run = Ok (result, log)" by (auto simp: is_ok_conv)
  note complete = run_case_complete [OF laws ok refl calm run]
  have holds: "log_holds mem_rec_at log [((1, 0), [0x78]), ((1, 1), [0x78])]"
    using conjunct1 [OF complete] unfolding two one by simp
  from conjunct2 [OF complete] have "\<exists>es rest. two_callbacks = es @ rest \<and> length es = 2
      \<and> res_latencies result = map ev_latency es" by auto
  then obtain es rest where es: "two_callbacks = es @ rest" "length es = 2"
    "res_latencies result = map ev_latency es" by blast
  then have "es = take 2 two_callbacks" by (metis append_eq_conv_conj)
  with es(3) holds run show ?thesis by (simp add: two_callbacks_def)
qed

end
