(* ===== verification/Rust_Float.thy ===== *)
theory Rust_Float imports Complex_Main Num_Format
begin

text \<open>
  The \<open>f64\<close> arithmetic of Rust, as far as the benchmark's report uses it: values that are not
  negative, the conversions from and to integers, addition, multiplication and division, and
  the formatting with a fixed number of decimals. A finite value is the rational number it
  stands for; each operation rounds the exact result to the nearest value with 53 binary
  digits, to the even one in the middle.
\<close>

section \<open>Values\<close>

datatype f64 = Finite rat | Infinite | NaN

definition round_even :: "rat \<Rightarrow> int" where
  "round_even x =
     (let n = \<lfloor>x\<rfloor>; d = x - of_int n
      in if d < 1 / 2 \<or> d = 1 / 2 \<and> even n then n else n + 1)"

text \<open>The exponent of the last of 53 binary digits; the smallest is that of the subnormals.\<close>

definition last_exponent :: "rat \<Rightarrow> int option" where
  "last_exponent x = find (\<lambda>e. x < 2 powi (e + 53)) [- 1074..971]"

definition f64_of :: "rat \<Rightarrow> f64" where
  "f64_of x =
     (case last_exponent x of
        None \<Rightarrow> Infinite
      | Some e \<Rightarrow>
          let m = round_even (x / 2 powi e)
          in if e = 971 \<and> m = 2 ^ 53 then Infinite else Finite (of_int m * 2 powi e))"

definition f64_of_u64 :: "u64 \<Rightarrow> f64" where
  "f64_of_u64 n = f64_of (of_nat (unat n))"

section \<open>Operations\<close>

fun f64_add :: "f64 \<Rightarrow> f64 \<Rightarrow> f64" where
  "f64_add (Finite a) (Finite b) = f64_of (a + b)"
| "f64_add NaN _ = NaN"
| "f64_add _ NaN = NaN"
| "f64_add _ _ = Infinite"

fun f64_mul :: "f64 \<Rightarrow> f64 \<Rightarrow> f64" where
  "f64_mul (Finite a) (Finite b) = f64_of (a * b)"
| "f64_mul NaN _ = NaN"
| "f64_mul _ NaN = NaN"
| "f64_mul Infinite (Finite b) = (if b = 0 then NaN else Infinite)"
| "f64_mul (Finite a) Infinite = (if a = 0 then NaN else Infinite)"
| "f64_mul Infinite Infinite = Infinite"

fun f64_div :: "f64 \<Rightarrow> f64 \<Rightarrow> f64" where
  "f64_div (Finite a) (Finite b) =
     (if b = 0 then if a = 0 then NaN else Infinite else f64_of (a / b))"
| "f64_div NaN _ = NaN"
| "f64_div _ NaN = NaN"
| "f64_div Infinite (Finite b) = Infinite"
| "f64_div (Finite a) Infinite = Finite 0"
| "f64_div Infinite Infinite = NaN"

text \<open>\<open>x.round() as usize\<close>: halves away from zero; the cast saturates and takes NaN to 0.\<close>

fun f64_round_usize :: "f64 \<Rightarrow> usize" where
  "f64_round_usize (Finite a) = of_nat (min (nat \<lfloor>a + 1 / 2\<rfloor>) (2 ^ 64 - 1))"
| "f64_round_usize Infinite = - 1"
| "f64_round_usize NaN = 0"

text \<open>\<open>{:.n}\<close>\<close>

fun show_f64 :: "nat \<Rightarrow> f64 \<Rightarrow> string" where
  "show_f64 n (Finite a) =
     (let k = nat (round_even (a * 10 ^ n))
      in dec_string (k div 10 ^ n)
         @ (if n = 0 then [] else CHR ''.'' # pad_dec n (k mod 10 ^ n)))"
| "show_f64 n Infinite = ''inf''"
| "show_f64 n NaN = ''NaN''"

section \<open>Rounding keeps the order and small integers\<close>

lemma round_even_int [simp]: "round_even (of_int n) = n"
  by (simp add: round_even_def)

lemma round_even_bounds: "of_int (round_even x) \<le> x + 1 / 2" "x - 1 / 2 \<le> of_int (round_even x)"
  by (auto simp: round_even_def Let_def; linarith)+

lemma round_even_mono:
  assumes "x \<le> y"
  shows "round_even x \<le> round_even y"
proof (cases "\<lfloor>x\<rfloor> = \<lfloor>y\<rfloor>")
  case True
  then show ?thesis using assms by (auto simp: round_even_def Let_def)
next
  case False
  with assms have "\<lfloor>x\<rfloor> + 1 \<le> \<lfloor>y\<rfloor>" by (metis floor_mono order_le_less zless_imp_add1_zle)
  then show ?thesis by (auto simp: round_even_def Let_def)
qed

lemma find_upto:
  "find P [lo..hi] = Some e \<longleftrightarrow> lo \<le> e \<and> e \<le> hi \<and> P e \<and> (\<forall>k. lo \<le> k \<and> k < e \<longrightarrow> \<not> P k)"
proof
  assume "find P [lo..hi] = Some e"
  then obtain i where i: "i < length [lo..hi]" "P ([lo..hi] ! i)" "e = [lo..hi] ! i"
    "\<forall>j < i. \<not> P ([lo..hi] ! j)" by (auto simp: find_Some_iff)
  then have e: "e = lo + int i" "e \<le> hi" by (simp_all add: nth_upto)
  have "\<not> P k" if "lo \<le> k" "k < e" for k
    using i(4) [rule_format, of "nat (k - lo)"] that e by (simp add: nth_upto)
  with i e show "lo \<le> e \<and> e \<le> hi \<and> P e \<and> (\<forall>k. lo \<le> k \<and> k < e \<longrightarrow> \<not> P k)" by simp
next
  assume e: "lo \<le> e \<and> e \<le> hi \<and> P e \<and> (\<forall>k. lo \<le> k \<and> k < e \<longrightarrow> \<not> P k)"
  then show "find P [lo..hi] = Some e"
    unfolding find_Some_iff by (intro exI [of _ "nat (e - lo)"]) (auto simp: nth_upto)
qed

lemma find_upto_le:
  assumes "P k" and "lo \<le> k" and "k \<le> hi"
  obtains e where "find P [lo..hi] = Some e" and "e \<le> k"
proof -
  have "find P [lo..hi] \<noteq> None" using assms by (auto simp: find_None_iff)
  then obtain e where e: "find P [lo..hi] = Some e" by blast
  moreover have "e \<le> k" using e assms unfolding find_upto by (metis not_less)
  ultimately show ?thesis by (rule that)
qed

lemma last_exponent_iff:
  "last_exponent x = Some e \<longleftrightarrow> - 1074 \<le> e \<and> e \<le> 971 \<and> x < 2 powi (e + 53)
     \<and> (\<forall>k. - 1074 \<le> k \<and> k < e \<longrightarrow> \<not> x < 2 powi (k + 53))"
  unfolding last_exponent_def by (rule find_upto)

lemma last_exponent_below:
  assumes "x < 2 powi (k + 53)" and "- 1074 \<le> k" and "k \<le> 971"
  obtains e where "last_exponent x = Some e" and "e \<le> k"
  using find_upto_le [of "\<lambda>e. x < 2 powi (e + 53)", OF assms] unfolding last_exponent_def by blast

text \<open>The rounded value between powers of two.\<close>

lemma rounded_le:
  assumes "x < 2 powi (e + 53)"
  shows "of_int (round_even (x / 2 powi e)) * 2 powi e \<le> (2 powi (e + 53) :: rat)"
proof -
  have "x / 2 powi e \<le> of_int (2 ^ 53)"
    using assms by (simp add: divide_le_eq power_int_add mult.commute)
  from round_even_mono [OF this] have "of_int (round_even (x / 2 powi e)) \<le> (2 ^ 53 :: rat)"
    unfolding round_even_int by (metis of_int_le_iff of_int_numeral of_int_power)
  then show ?thesis by (simp add: power_int_add mult.commute)
qed

lemma rounded_ge:
  assumes "2 powi k \<le> x" and "e \<le> k"
  shows "(2 powi k :: rat) \<le> of_int (round_even (x / 2 powi e)) * 2 powi e"
proof -
  have split: "(2 powi k :: rat) = of_int (2 ^ nat (k - e)) * 2 powi e"
    using assms(2) by (simp flip: power_int_of_nat power_int_add)
  then have "of_int (2 ^ nat (k - e)) \<le> x / 2 powi e"
    using assms(1) by (simp add: le_divide_eq)
  from round_even_mono [OF this] have "of_int (2 ^ nat (k - e)) \<le> (of_int (round_even (x / 2 powi e)) :: rat)"
    unfolding round_even_int by (metis of_int_le_iff)
  then show ?thesis unfolding split by (simp add: mult_right_mono)
qed

lemma f64_of_mono:
  assumes "x \<le> y" and "f64_of y = Finite b"
  obtains a where "f64_of x = Finite a" and "a \<le> b"
proof -
  from assms(2) obtain e where e: "last_exponent y = Some e" and b: "b = of_int (round_even (y / 2 powi e)) * 2 powi e"
    and top: "\<not> (e = 971 \<and> round_even (y / 2 powi e) = 2 ^ 53)"
    by (auto simp: f64_of_def Let_def split: option.splits if_splits)
  have y: "y < 2 powi (e + 53)" and "- 1074 \<le> e" and "e \<le> 971" using e by (simp_all add: last_exponent_iff)
  with assms(1) have "x < 2 powi (e + 53)" by simp
  then obtain d where d: "last_exponent x = Some d" "d \<le> e"
    using \<open>- 1074 \<le> e\<close> \<open>e \<le> 971\<close> by (rule last_exponent_below)
  let ?a = "of_int (round_even (x / 2 powi d)) * 2 powi d :: rat"
  have x: "x < 2 powi (d + 53)" and "- 1074 \<le> d" using d(1) by (simp_all add: last_exponent_iff)
  have le: "?a \<le> b \<and> (d = 971 \<longrightarrow> round_even (x / 2 powi d) \<noteq> 2 ^ 53)"
  proof (cases "d = e")
    case True
    have mono: "round_even (x / 2 powi e) \<le> round_even (y / 2 powi e)"
      using assms(1) by (intro round_even_mono divide_right_mono) simp_all
    moreover have "of_int (round_even (y / 2 powi e)) * (2 powi e :: rat) \<le> 2 ^ 53 * 2 powi e"
      using rounded_le [OF y] by (simp add: power_int_add mult.commute)
    then have "round_even (y / 2 powi e) \<le> 2 ^ 53"
      by (metis mult_le_cancel_right of_int_le_iff of_int_numeral of_int_power not_less zero_less_power_int zero_less_numeral)
    ultimately show ?thesis using True top b by (auto intro: mult_right_mono)
  next
    case False
    with d(2) have "d < e" by simp
    moreover from this have "\<not> y < 2 powi (e - 1 + 53)"
      using e \<open>- 1074 \<le> d\<close> unfolding last_exponent_iff by (elim conjE allE [of _ "e - 1"]) simp
    then have "2 powi (e + 52) \<le> b" unfolding b by (intro rounded_ge) (simp_all add: algebra_simps)
    moreover have "(2 powi (d + 53) :: rat) \<le> 2 powi (e + 52)"
      using \<open>d < e\<close> by (intro power_int_increasing) simp_all
    ultimately show ?thesis using rounded_le [OF x] \<open>e \<le> 971\<close> by auto
  qed
  with d(1) have "f64_of x = Finite ?a" by (auto simp: f64_of_def Let_def)
  with le that show ?thesis by blast
qed

lemma f64_of_nat:
  assumes "n < 2 ^ 53"
  shows "f64_of (of_nat n) = Finite (of_nat n)"
proof -
  have "(of_nat n :: rat) < of_nat (2 ^ 53)" using assms by (simp only: of_nat_less_iff)
  then have small: "(of_nat n :: rat) < 2 powi (0 + 53)" by simp
  then obtain e where e: "last_exponent (of_nat n) = Some e" and "e \<le> 0"
    by (rule last_exponent_below) simp_all
  obtain m where m: "e = - int m" using \<open>e \<le> 0\<close> by (metis nonpos_int_cases)
  have power: "(2 :: rat) powi e = 1 / 2 ^ m" by (simp add: m power_int_minus divide_inverse)
  have "(of_nat n :: rat) / 2 powi e = of_int (int n * 2 ^ m)" by (simp add: power)
  then have "round_even (of_nat n / 2 powi e) = int n * 2 ^ m" by (simp only: round_even_int)
  then have "of_int (round_even (of_nat n / 2 powi e)) * 2 powi e = (of_nat n :: rat)" by (simp add: power)
  with e \<open>e \<le> 0\<close> show ?thesis by (simp add: f64_of_def Let_def)
qed

end
