(* ===== verification/Bench_Report.thy ===== *)
theory Bench_Report imports Bench_Runs Rust_Float
begin

text \<open>
  The report of \<open>examples/flush_batch_bench.rs\<close>: \<open>render_report\<close> with its averages, percentiles
  and durations, and \<open>main\<close>. The clock and the file system are parameters.
\<close>

section \<open>Figures\<close>

text \<open>The fields of \<open>FlushMetrics\<close> (crate \<open>chunked_wal\<close>) that the report prints.\<close>

record flush_figures =
  write_request_count :: u64
  write_bytes :: u64
  write_max_us :: u64
  queued_wait_max_us :: u64
  batch_count :: u64
  batch_size_max :: u64
  batch_max_us :: u64
  sync_batch_count :: u64
  sync_us :: u64
  sync_max_us :: u64
  group_wait_count :: u64
  group_wait_us :: u64
  group_wait_max_us :: u64

definition as_secs_f64 :: "nat \<Rightarrow> f64" where
  "as_secs_f64 duration =
     f64_add (f64_of (of_nat (duration div 10 ^ 9)))
       (f64_div (f64_of (of_nat (duration mod 10 ^ 9))) (f64_of (10 ^ 9)))"

definition duration_ms :: "nat \<Rightarrow> f64" where
  "duration_ms duration = f64_mul (as_secs_f64 duration) (f64_of 1000)"

definition divide_f64 :: "u64 \<Rightarrow> u64 \<Rightarrow> f64" where
  "divide_f64 amount count =
     (if count = 0 then Finite 0 else f64_div (f64_of_u64 amount) (f64_of_u64 count))"

definition average_duration_us :: "nat list \<Rightarrow> f64" where
  "average_duration_us latencies =
     (if latencies = [] then Finite 0
      else
        let total_us = sum_list (map duration_us latencies)
        in f64_div (f64_of_u64 total_us) (f64_of_u64 (of_nat (length latencies))))"

definition percentile_us :: "nat list \<Rightarrow> f64 \<Rightarrow> (u64, string) outcome" where
  "percentile_us sorted_latencies percentile =
     (if sorted_latencies = [] then Ok 0
      else
        let index = unat (f64_round_usize
              (f64_mul (f64_of_u64 (of_nat (length sorted_latencies - 1))) percentile))
        in if index < length sorted_latencies then Ok (duration_us (sorted_latencies ! index))
           else Panic)"

definition format_duration :: "nat \<Rightarrow> string" where
  "format_duration duration =
     (if 0 < duration div 10 ^ 9 then show_f64 3 (as_secs_f64 duration) @ ''s''
      else if 0 < duration div 10 ^ 6 then dec_string (duration div 10 ^ 6) @ ''ms''
      else dec_string (duration div 10 ^ 3) @ ''us'')"

section \<open>The report\<close>

definition dbg_list :: "u64 list \<Rightarrow> string" where
  "dbg_list ws = ''['' @ join_with '', '' (map show_u64 ws) @ '']''"

definition table_row :: "string list \<Rightarrow> string" where
  "table_row cells = ''| '' @ join_with '' | '' cells @ '' |'' @ nl"

definition report_head :: "options \<Rightarrow> u64 \<Rightarrow> string \<Rightarrow> string" where
  "report_head opts generated_at profile =
     ''# WAL Flush Batch Benchmark Report'' @ nl @ nl
     @ ''- Generated at Unix time: '' @ show_u64 generated_at @ nl
     @ ''- Build profile: '' @ profile @ nl
     @ ''- Operations per case: '' @ show_u64 (opt_operations opts) @ nl
     @ ''- Payload bytes: '' @ show_u64 (opt_payload_bytes opts) @ nl
     @ ''- Wait windows: '' @ dbg_list (opt_wait_us opts) @ '' us'' @ nl
     @ ''- Batch sizes: '' @ dbg_list (opt_batch_sizes opts) @ nl @ nl
     @ ''## Methodology'' @ nl @ nl
     @ ''- Each case opens a fresh temporary RaftLog directory.'' @ nl
     @ ''- The benchmark submits all append + sync flush operations first, then waits for all callbacks.'' @ nl
     @ ''- Callback latency is measured from flush submission to callback completion, so it includes ''
     @ ''flush-worker queueing, file write, and fsync time.'' @ nl
     @ ''- QPS is computed from total operations divided by wall-clock time for submitting and ''
     @ ''completing all callbacks.'' @ nl @ nl
     @ ''## Summary'' @ nl @ nl
     @ table_row [''case'', ''wait'', ''configured batch'', ''elapsed ms'', ''qps'', ''avg us'', ''p50 us'',
         ''p90 us'', ''p99 us'', ''max us'', ''batches'', ''sync batches'', ''writes/batch'', ''max batch'',
         ''sync avg us'', ''sync max us'', ''group avg us'', ''group max us'']
     @ ''|---'' @ concat (replicate 17 ''|---:'') @ ''|'' @ nl"

definition percentiles :: "nat list \<Rightarrow> (u64 list, string) outcome" where
  "percentiles latencies =
     collect_results (map (\<lambda>p. percentile_us latencies (f64_of p)) [50 / 100, 90 / 100, 99 / 100, 1])"

definition summary_row :: "flush_figures case_result \<Rightarrow> (string, string) outcome" where
  "summary_row res =
     (let latencies = sort (res_latencies res);
          avg_us = average_duration_us latencies;
          qps = f64_div (f64_of_u64 (res_operations res)) (as_secs_f64 (res_elapsed res));
          metrics = res_metrics res;
          writes_per_batch = divide_f64 (write_request_count metrics) (batch_count metrics);
          sync_avg_us = divide_f64 (sync_us metrics) (sync_batch_count metrics);
          group_avg_us = divide_f64 (group_wait_us metrics) (group_wait_count metrics)
      in and_then (percentiles latencies) (\<lambda>ps. Ok (table_row
           ([res_name res, format_duration (res_wait res), show_u64 (res_batch_size res),
             show_f64 2 (duration_ms (res_elapsed res)), show_f64 0 qps, show_f64 0 avg_us]
            @ map show_u64 ps
            @ [show_u64 (batch_count metrics), show_u64 (sync_batch_count metrics),
               show_f64 2 writes_per_batch, show_u64 (batch_size_max metrics),
               show_f64 2 sync_avg_us, show_u64 (sync_max_us metrics),
               show_f64 2 group_avg_us, show_u64 (group_wait_max_us metrics)]))))"

definition histogram_row :: "nat \<Rightarrow> string \<times> usize \<Rightarrow> string" where
  "histogram_row n row =
     (let percent = f64_div (f64_mul (f64_of_u64 (snd row)) (f64_of 100)) (f64_of_u64 (of_nat n))
      in table_row [fst row, show_u64 (snd row), show_f64 2 percent @ ''%''])"

definition case_section :: "flush_figures case_result \<Rightarrow> string" where
  "case_section res =
     nl @ ''## '' @ res_name res @ nl @ nl
     @ ''- wait: '' @ format_duration (res_wait res) @ nl
     @ ''- configured batch: '' @ show_u64 (res_batch_size res) @ nl
     @ ''- operations: '' @ show_u64 (res_operations res) @ nl
     @ ''- payload bytes: '' @ show_u64 (res_payload_bytes res) @ nl
     @ ''- elapsed: '' @ show_f64 2 (duration_ms (res_elapsed res)) @ '' ms'' @ nl
     @ ''- write bytes: '' @ show_u64 (write_bytes (res_metrics res)) @ nl
     @ ''- queued wait max: '' @ show_u64 (queued_wait_max_us (res_metrics res)) @ '' us'' @ nl
     @ ''- write max: '' @ show_u64 (write_max_us (res_metrics res)) @ '' us'' @ nl
     @ ''- batch max: '' @ show_u64 (batch_max_us (res_metrics res)) @ '' us'' @ nl @ nl
     @ ''### Callback Latency Histogram'' @ nl @ nl
     @ ''| bucket | count | percent |'' @ nl @ ''|---:|---:|---:|'' @ nl
     @ concat (map (histogram_row (length (res_latencies res))) (histogram (res_latencies res)))"

definition render_report ::
  "options \<Rightarrow> flush_figures case_result list \<Rightarrow> u64 \<Rightarrow> string \<Rightarrow> (string, string) outcome" where
  "render_report opts results generated_at profile =
     and_then (collect_results (map summary_row results)) (\<lambda>rows.
       Ok (report_head opts generated_at profile @ concat rows @ concat (map case_section results)))"

text \<open>
  \<open>main\<close>, given the options that were parsed: \<open>run\<close> runs a case, \<open>create_parent\<close> makes the
  directory of the output file and \<open>write_file\<close> writes it. The report is printed, too.
\<close>

definition bench_main ::
  "(string \<Rightarrow> nat \<Rightarrow> usize \<Rightarrow> usize \<Rightarrow> usize \<Rightarrow> (flush_figures case_result, string) outcome)
     \<Rightarrow> u64 \<Rightarrow> string \<Rightarrow> (string \<Rightarrow> (unit, string) outcome)
     \<Rightarrow> (string \<Rightarrow> string \<Rightarrow> (unit, string) outcome) \<Rightarrow> options \<Rightarrow> (string, string) outcome" where
  "bench_main run now profile create_parent write_file opts =
     and_then (run_cases run opts) (\<lambda>results.
     and_then (render_report opts results now profile) (\<lambda>report.
     and_then (create_parent (opt_output opts)) (\<lambda>_.
     and_then (write_file (opt_output opts) report) (\<lambda>_. Ok report))))"

section \<open>Percentiles\<close>

definition percentile_index :: "nat \<Rightarrow> rat \<Rightarrow> nat" where
  "percentile_index n q =
     (case f64_mul (f64_of (of_nat n)) (f64_of q) of Finite a \<Rightarrow> nat \<lfloor>a + 1 / 2\<rfloor> | _ \<Rightarrow> 0)"

lemma f64_of_one: "f64_of 1 = Finite 1" "f64_of 0 = Finite 0"
  using f64_of_nat [of 1] f64_of_nat [of 0] by simp_all

text \<open>For a fraction of a small number, the product is a value up to this number.\<close>

lemma f64_fraction:
  assumes "n < 2 ^ 53" and "q \<le> q'" and "q' \<le> 1" and "0 \<le> q"
  obtains a a' where "f64_mul (f64_of (of_nat n)) (f64_of q) = Finite a"
    and "f64_mul (f64_of (of_nat n)) (f64_of q') = Finite a'"
    and "a \<le> a'" and "a' \<le> of_nat n"
proof -
  obtain b' where b': "f64_of q' = Finite b'" "b' \<le> 1"
    using f64_of_mono [OF assms(3) f64_of_one(1)] by blast
  obtain b where b: "f64_of q = Finite b" "b \<le> b'"
    using f64_of_mono [OF assms(2) b'(1)] by blast
  have "of_nat n * b' \<le> (of_nat n :: rat)" using b'(2) by (simp add: mult_left_le)
  from f64_of_mono [OF this f64_of_nat [OF assms(1)]] obtain a' where
    a': "f64_of (of_nat n * b') = Finite a'" "a' \<le> of_nat n" by blast
  have "of_nat n * b \<le> of_nat n * b'" using b(2) by (simp add: mult_left_mono)
  from f64_of_mono [OF this a'(1)] obtain a where "f64_of (of_nat n * b) = Finite a" "a \<le> a'" by blast
  with a' b b' that show ?thesis by (simp add: f64_of_nat [OF assms(1)])
qed

lemma percentile_index_mono:
  assumes "n < 2 ^ 53" and "q \<le> q'" and "q' \<le> 1" and "0 \<le> q"
  shows "percentile_index n q \<le> percentile_index n q'" and "percentile_index n q' \<le> n"
proof -
  obtain a a' where a: "f64_mul (f64_of (of_nat n)) (f64_of q) = Finite a"
    "f64_mul (f64_of (of_nat n)) (f64_of q') = Finite a'" "a \<le> a'" "a' \<le> of_nat n"
    by (rule f64_fraction [OF assms])
  have "\<lfloor>a' + 1 / 2\<rfloor> \<le> \<lfloor>(of_nat n :: rat) + 1 / 2\<rfloor>" using a(4) by (intro floor_mono) simp
  also have "\<dots> = int n" by (simp add: floor_eq_iff)
  finally show "percentile_index n q' \<le> n" using a(2) by (simp add: percentile_index_def nat_le_iff)
  from a(3) have "\<lfloor>a + 1 / 2\<rfloor> \<le> \<lfloor>a' + 1 / 2\<rfloor>" by (intro floor_mono) simp
  with a(1,2) show "percentile_index n q \<le> percentile_index n q'"
    by (simp add: percentile_index_def nat_mono)
qed

lemma percentile_index_one: "n < 2 ^ 53 \<Longrightarrow> percentile_index n 1 = n"
proof -
  assume n: "n < 2 ^ 53"
  have "\<lfloor>(of_nat n :: rat) + 1 / 2\<rfloor> = int n" by (simp add: floor_eq_iff)
  with n show ?thesis by (simp add: percentile_index_def f64_of_nat f64_of_one)
qed

lemma percentile_us_index:
  assumes "ls \<noteq> []" and "length ls \<le> 2 ^ 53" and "0 \<le> q" and "q \<le> 1"
  shows "percentile_us ls (f64_of q) = Ok (duration_us (ls ! percentile_index (length ls - 1) q))"
    and "percentile_index (length ls - 1) q < length ls"
proof -
  let ?n = "length ls - 1"
  have n: "?n < 2 ^ 53" using assms(1,2) by (cases ls) auto
  then have "unat (of_nat ?n :: u64) = ?n"
    by (simp add: unsigned_of_nat take_bit_nat_eq_self)
  then have u64: "f64_of_u64 (of_nat ?n) = f64_of (of_nat ?n)" by (simp add: f64_of_u64_def)
  obtain a where a: "f64_mul (f64_of (of_nat ?n)) (f64_of q) = Finite a"
    using f64_fraction [OF n order.refl assms(4,3)] by blast
  have le: "percentile_index ?n q \<le> ?n" by (rule percentile_index_mono(2) [OF n order.refl assms(4,3)])
  then show small: "percentile_index ?n q < length ls" using assms(1) by (cases ls) auto
  have "nat \<lfloor>a + 1 / 2\<rfloor> = percentile_index ?n q" using a by (simp add: percentile_index_def)
  moreover have "percentile_index ?n q < 2 ^ 64" using le n by simp
  ultimately have index: "unat (f64_round_usize (Finite a)) = percentile_index ?n q"
    by (simp add: unsigned_of_nat take_bit_nat_eq_self)
  show "percentile_us ls (f64_of q) = Ok (duration_us (ls ! percentile_index ?n q))"
    unfolding percentile_us_def Let_def u64 a index using assms(1) small by simp
qed

text \<open>The four percentiles of the report.\<close>

lemma duration_us_mono: "a \<le> b \<Longrightarrow> duration_us a \<le> duration_us b"
  by (simp add: duration_us_def word_le_nat_alt unsigned_of_nat take_bit_nat_eq_self div_le_mono min.coboundedI1)

lemma sorted_latency_mono:
  "sorted ls \<Longrightarrow> i \<le> j \<Longrightarrow> j < length ls \<Longrightarrow> duration_us (ls ! i) \<le> duration_us (ls ! j)"
  by (intro duration_us_mono sorted_nth_mono)

lemma summary_row_Ok:
  assumes "length (res_latencies res) \<le> 2 ^ 53"
  shows "is_ok (summary_row res)"
proof -
  have "is_ok (percentile_us (sort (res_latencies res)) (f64_of q))" if "0 \<le> q" "q \<le> 1" for q
    using percentile_us_index(1) [of "sort (res_latencies res)" q] assms that
    by (cases "res_latencies res = []") (simp_all add: percentile_us_def)
  then have "is_ok (percentiles (sort (res_latencies res)))"
    unfolding percentiles_def is_ok_collect by auto
  then obtain ps where "percentiles (sort (res_latencies res)) = Ok ps" by (auto simp: is_ok_conv)
  then show ?thesis by (simp add: summary_row_def Let_def)
qed

text \<open>C40: Bounds. The percentiles of a case's latencies never index out of the list: computed in
  \<open>f64\<close>, for up to \<open>2 ^ 53\<close> latencies, they are latencies of the case, the median at most the
  90th percentile, that at most the 99th, and that at most the last one, which is the maximum.
  So the report is rendered without a panic.\<close>

theorem percentiles_in_order:
  assumes "latencies \<noteq> []" and "length latencies \<le> 2 ^ 53"
  shows "\<exists>p50 p90 p99 pmax. percentiles (sort latencies) = Ok [p50, p90, p99, pmax]
     \<and> {p50, p90, p99} \<subseteq> duration_us ` set latencies
     \<and> p50 \<le> p90 \<and> p90 \<le> p99 \<and> p99 \<le> pmax
     \<and> pmax = Max (duration_us ` set latencies)"
proof -
  let ?ls = "sort latencies" and ?n = "length (sort latencies) - 1"
  let ?at = "\<lambda>q. duration_us (?ls ! percentile_index ?n q)"
  have n: "?n < 2 ^ 53" and ls: "?ls \<noteq> []" "length ?ls \<le> 2 ^ 53"
    using assms by (cases latencies; simp)+
  have index: "percentile_index ?n q < length ?ls" if "0 \<le> q" "q \<le> 1" for q
    by (rule percentile_us_index(2) [OF ls that])
  have mono: "?at q \<le> ?at q'" if "q \<le> q'" "q' \<le> 1" "0 \<le> q" for q q'
    using percentile_index_mono(1) [OF n that] index [of q'] that
    by (intro sorted_latency_mono) simp_all
  have member: "?at q \<in> duration_us ` set latencies" if "0 \<le> q" "q \<le> 1" for q
    using index [OF that] by (metis image_eqI nth_mem set_sort)
  have "l \<le> ?ls ! ?n" if "l \<in> set latencies" for l
  proof -
    from that obtain i where "i < length ?ls" "l = ?ls ! i" by (metis in_set_conv_nth set_sort)
    then show ?thesis by (simp add: sorted_nth_mono)
  qed
  then have "?at 1 = Max (duration_us ` set latencies)"
    using member [of 1] unfolding percentile_index_one [OF n]
    by (intro Max_eqI [symmetric]) (auto intro: duration_us_mono)
  moreover have "percentiles ?ls = Ok [?at (50 / 100), ?at (90 / 100), ?at (99 / 100), ?at 1]"
    using percentile_us_index(1) [OF ls] by (simp add: percentiles_def)
  ultimately show ?thesis
    using member [of "50 / 100"] member [of "90 / 100"] member [of "99 / 100"]
      mono [of "50 / 100" "90 / 100"] mono [of "90 / 100" "99 / 100"] mono [of "99 / 100" 1]
    by (intro exI [of _ "?at (50 / 100)"] exI [of _ "?at (90 / 100)"] exI [of _ "?at (99 / 100)"]
        exI [of _ "?at 1"]) (simp del: length_sort)
qed

theorem percentiles_in_order_witness:
  "\<exists>p50 p90 p99. percentiles (sort [7000, 2000, 9000]) = Ok [p50, p90, p99, 9]
     \<and> {p50, p90, p99} \<subseteq> {2, 7, 9} \<and> p50 \<le> p90 \<and> p90 \<le> p99"
  using percentiles_in_order [of "[7000, 2000, 9000]"]
  by (auto simp: duration_us_def word_le_nat_alt max_def)

text \<open>The report of cases that have so few latencies.\<close>

lemma report_rendered:
  assumes "\<forall>res \<in> set results. length (res_latencies res) \<le> 2 ^ 53"
  shows "is_ok (render_report opts results generated_at profile)"
proof -
  have "is_ok (collect_results (map summary_row results))"
    using assms summary_row_Ok unfolding is_ok_collect by auto
  then obtain rows where "collect_results (map summary_row results) = Ok rows"
    by (auto simp: is_ok_conv)
  then show ?thesis by (simp add: render_report_def)
qed

text \<open>Without any operation every row of the histogram has NaN for its percentage.\<close>

lemma nothing_measured: "histogram_row 0 (label, 0) = ''| '' @ label @ '' | 0 | NaN% |'' @ nl"
proof -
  have zero: "f64_of_u64 0 = Finite 0" by (simp add: f64_of_u64_def f64_of_one)
  have "f64_of 100 = Finite 100" using f64_of_nat [of 100] by simp
  with zero show ?thesis
    by (simp add: histogram_row_def table_row_def f64_of_one show_u64_def dec_string.simps digit_char_def)
qed

end
