(* ===== verification/Sample_Dump.thy ===== *)
theory Sample_Dump imports Client_Runs Dump_Properties Codec_Properties
begin

text \<open>
  The sample data of \<open>src/tests/sample_data.rs\<close>, with the texts that its dumps must have, byte
  offsets included: a run of the store, the sizes of the encoded records and the text dump
  together.
\<close>

section \<open>Derived text\<close>

text \<open>The derived \<open>Debug\<close> of actions and states; a string without escapes stands in quotes.\<close>

definition quoted :: "string \<Rightarrow> string" where
  "quoted s = CHR 0x22 # s @ [CHR 0x22]"

fun show_option :: "('a \<Rightarrow> string) \<Rightarrow> 'a option \<Rightarrow> string" where
  "show_option f None = ''None''"
| "show_option f (Some x) = f x"

fun dbg_action :: "('l, 'p, 'v) raft_types \<Rightarrow> ('p \<Rightarrow> string) \<Rightarrow> ('l, 'p, 'v) raft_action \<Rightarrow> string" where
  "dbg_action T payload (SaveVote v) = ''SaveVote('' @ dbg_vote T v @ '')''"
| "dbg_action T payload (Append l p) = ''Append('' @ dbg_log_id T l @ '', '' @ payload p @ '')''"
| "dbg_action T payload (Commit l) = ''Commit('' @ dbg_log_id T l @ '')''"
| "dbg_action T payload (TruncateAfter l) = ''TruncateAfter('' @ dbg_option (dbg_log_id T) l @ '')''"
| "dbg_action T payload (PurgeUpto l) = ''PurgeUpto('' @ dbg_log_id T l @ '')''"

definition dbg_state :: "('l, 'p, 'v) raft_types \<Rightarrow> ('u \<Rightarrow> string) \<Rightarrow> ('l, 'v, 'u) raft_log_state \<Rightarrow> string" where
  "dbg_state T user st =
     ''RaftLogState { vote: '' @ dbg_option (dbg_vote T) (st_vote st)
     @ '', last: '' @ dbg_option (dbg_log_id T) (st_last st)
     @ '', committed: '' @ dbg_option (dbg_log_id T) (st_committed st)
     @ '', purged: '' @ dbg_option (dbg_log_id T) (st_purged st)
     @ '', user_data: '' @ dbg_option user (st_user_data st) @ '' }''"

text \<open>The \<open>Debug\<close> of a record is that of \<open>chunked_wal\<close>: an action as it is, a checkpoint in \<open>State\<close>.\<close>

fun dbg_test_record :: "test_record \<Rightarrow> string" where
  "dbg_test_record (Action a) = dbg_action test_types quoted a"
| "dbg_test_record (Checkpoint st) = ''State('' @ dbg_state test_types quoted st @ '')''"

definition bytes_text :: "(u64, u64 \<times> u64, test_record) text_api" where
  "bytes_text =
     \<lparr>show_chunk_id = (\<lambda>c. ''ChunkId('' @ format_grouped c 20 @ '')''), seg_offset = fst,
      seg_end = (\<lambda>g. fst g + snd g), show_seg_size = (\<lambda>g. ''Size('' @ show_u64 (snd g) @ '')''),
      dbg_record = dbg_test_record, show_record = (\<lambda>_. []), show_io_error = err_msg\<rparr>"

section \<open>Where records are in bytes\<close>

text \<open>
  The number of bytes of a record; a checkpoint is the record type, the state and the checksum.
\<close>

fun ok_or :: "'a \<Rightarrow> ('a, 'e) outcome \<Rightarrow> 'a" where
  "ok_or b (Ok a) = a"
| "ok_or b (Err e) = b"
| "ok_or b Panic = b"

fun record_size :: "test_record \<Rightarrow> nat" where
  "record_size (Action a) = ok_or 0 (fst (encode_action test_codecs a []))"
| "record_size (Checkpoint st) = 4 + ok_or 0 (fst (encode_state test_codecs st [])) + 8"

text \<open>
  The records of a reference WAL that are still there. A chunk's id is the number of bytes
  before it, and a record's segment starts after the records before it in the chunk.
\<close>

definition bytes_before :: "test_wal \<Rightarrow> (nat \<Rightarrow> nat \<Rightarrow> bool) \<Rightarrow> nat" where
  "bytes_before w P =
     sum_list (map (\<lambda>(rec, c, g). if P c g then record_size rec else 0) (mw_history w))"

definition byte_items :: "test_wal \<Rightarrow> (u64 \<times> u64 \<times> ((u64 \<times> u64) \<times> test_record, io_error) outcome) list" where
  "byte_items w =
     map (\<lambda>(rec, c, g).
         (of_nat (bytes_before w (\<lambda>c' _. c' < c)), of_nat g,
          Ok ((of_nat (bytes_before w (\<lambda>c' g'. c' = c \<and> g' < g)), of_nat (record_size rec)), rec)))
       (filter (\<lambda>(rec, c, g). c = mw_open_id w \<or> c \<in> set (map fst (mw_closed w))) (mw_history w))"

definition dump_text :: "test_store \<Rightarrow> (string, io_error) outcome" where
  "dump_text s =
     write_to_string bytes_text (ref_dump_write_with (\<lambda>w. feed (byte_items w)) (rl_dump s))"

section \<open>The sample data\<close>

definition text_lines :: "string list \<Rightarrow> string" where
  "text_lines ls = concat (map (\<lambda>l. l @ nl) ls)"

definition sample_dumped :: string where
  "sample_dumped = text_lines
     [(''RaftLog:''),
      (''ChunkId(00_000_000_000_000_000_000)''),
      (''  R-00000: [000_000_000, 000_000_018) Size(18): ''
       @ ''State(RaftLogState { vote: None, last: None, committed: None, purged: None, user_data: None })''),
      (''  R-00001: [000_000_018, 000_000_052) Size(34): Append((1, 0), '' @ quoted ''hi'' @ '')''),
      (''  R-00002: [000_000_052, 000_000_089) Size(37): Append((1, 1), '' @ quoted ''hello'' @ '')''),
      (''  R-00003: [000_000_089, 000_000_126) Size(37): Append((1, 2), '' @ quoted ''world'' @ '')''),
      (''  R-00004: [000_000_126, 000_000_161) Size(35): Append((1, 3), '' @ quoted ''foo'' @ '')''),
      (''ChunkId(00_000_000_000_000_000_161)''),
      (''  R-00000: [000_000_000, 000_000_034) Size(34): ''
       @ ''State(RaftLogState { vote: None, last: Some((1, 3)), committed: None, purged: None, user_data: None })''),
      (''  R-00001: [000_000_034, 000_000_063) Size(29): TruncateAfter(Some((1, 1)))''),
      (''  R-00002: [000_000_063, 000_000_100) Size(37): Append((2, 2), '' @ quoted ''world'' @ '')''),
      (''  R-00003: [000_000_100, 000_000_135) Size(35): Append((2, 3), '' @ quoted ''foo'' @ '')''),
      (''  R-00004: [000_000_135, 000_000_163) Size(28): Commit((1, 2))''),
      (''ChunkId(00_000_000_000_000_000_324)''),
      (''  R-00000: [000_000_000, 000_000_050) Size(50): ''
       @ ''State(RaftLogState { vote: None, last: Some((2, 3)), committed: Some((1, 2)), purged: None, user_data: None })''),
      (''  R-00001: [000_000_050, 000_000_078) Size(28): PurgeUpto((1, 1))''),
      (''  R-00002: [000_000_078, 000_000_115) Size(37): Append((2, 4), '' @ quoted ''world'' @ '')''),
      (''  R-00003: [000_000_115, 000_000_150) Size(35): Append((2, 5), '' @ quoted ''foo'' @ '')''),
      (''  R-00004: [000_000_150, 000_000_185) Size(35): Append((2, 6), '' @ quoted ''bar'' @ '')''),
      (''ChunkId(00_000_000_000_000_000_509)''),
      (''  R-00000: [000_000_000, 000_000_066) Size(66): ''
       @ ''State(RaftLogState { vote: None, last: Some((2, 6)), committed: Some((1, 2)), purged: Some((1, 1)), user_data: None })''),
      (''  R-00001: [000_000_066, 000_000_101) Size(35): Append((2, 7), '' @ quoted ''wow'' @ '')'')]"

definition purged_dumped :: string where
  "purged_dumped = text_lines
     [(''RaftLog:''),
      (''ChunkId(00_000_000_000_000_000_324)''),
      (''  R-00000: [000_000_000, 000_000_050) Size(50): ''
       @ ''State(RaftLogState { vote: None, last: Some((2, 3)), committed: Some((1, 2)), purged: None, user_data: None })''),
      (''  R-00001: [000_000_050, 000_000_078) Size(28): PurgeUpto((1, 1))''),
      (''  R-00002: [000_000_078, 000_000_115) Size(37): Append((2, 4), '' @ quoted ''world'' @ '')''),
      (''  R-00003: [000_000_115, 000_000_150) Size(35): Append((2, 5), '' @ quoted ''foo'' @ '')''),
      (''  R-00004: [000_000_150, 000_000_185) Size(35): Append((2, 6), '' @ quoted ''bar'' @ '')''),
      (''ChunkId(00_000_000_000_000_000_509)''),
      (''  R-00000: [000_000_000, 000_000_066) Size(66): ''
       @ ''State(RaftLogState { vote: None, last: Some((2, 6)), committed: Some((1, 2)), purged: Some((1, 1)), user_data: None })''),
      (''  R-00001: [000_000_066, 000_000_101) Size(35): Append((2, 7), '' @ quoted ''wow'' @ '')''),
      (''  R-00002: [000_000_101, 000_000_129) Size(28): PurgeUpto((2, 3))'')]"

text \<open>
  \<open>wait\<close> is what a blocking flush waits for. The data is laid out for chunks of five records; any
  other configuration is refused.
\<close>

definition build_sample_data :: "test_store waiting \<Rightarrow> test_store \<Rightarrow> (string, test_store) call" where
  "build_sample_data wait s =
     sbind (if mw_max (rl_wal s) = 5 then Ok () else Panic, s) (\<lambda>_ s.
     sbind (rl_append test_types test_api
       [((1, 0), ''hi''), ((1, 1), ''hello''), ((1, 2), ''world''), ((1, 3), ''foo'')] s) (\<lambda>_ s.
     sbind (rl_truncate test_types test_api 2 s) (\<lambda>_ s.
     sbind (rl_append test_types test_api [((2, 2), ''world''), ((2, 3), ''foo'')] s) (\<lambda>_ s.
     sbind (rl_commit test_types test_api (1, 2) s) (\<lambda>_ s.
     sbind (rl_purge test_types test_api (1, 1) s) (\<lambda>_ s.
     sbind (blocking_flush test_api () wait s) (\<lambda>_ s.
     sbind (rl_append test_types test_api
       [((2, 4), ''world''), ((2, 5), ''foo''), ((2, 6), ''bar''), ((2, 7), ''wow'')] s) (\<lambda>_ s.
     sbind (blocking_flush test_api () wait s) (\<lambda>_ s. (Ok sample_dumped, s))))))))))"

definition build_sample_data_purge_upto_3 ::
  "(test_wal, test_state, 'cs, 'fm) wal_stats \<Rightarrow> test_store waiting \<Rightarrow> test_store
     \<Rightarrow> (string, test_store) call" where
  "build_sample_data_purge_upto_3 S wait s =
     sbind (build_sample_data wait s) (\<lambda>_ s.
     sbind (rl_purge test_types test_api (2, 3) s) (\<lambda>_ s.
     sbind (blocking_flush test_api () wait s) (\<lambda>_ s.
     sbind (dump_text s, s) (\<lambda>dump s.
     sbind (if dump = purged_dumped then Ok () else Panic, s) (\<lambda>_ s.
     sbind (wait_worker_idle S s, s) (\<lambda>_ s. (Ok purged_dumped, s)))))))"

text \<open>
  The flush worker that the tests run: it has put the closed chunks on disk and called back
  for the last of them when a blocking flush returns.
\<close>

definition persist_closed :: "test_store waiting" where
  "persist_closed s =
     (Completed, worker_callback (Some (snd (last (mw_closed (rl_wal s))))) s)"


definition test_dump_data :: bool where
  "test_dump_data =
     (case build_sample_data persist_closed (test_store 5 (Some 3) None) of
        (Ok _, rl) \<Rightarrow>
          (let data = dump_data (\<lambda>w. w) rl;
               (items, it) = dump_collect mem_load (dump_iter_new data)
           in dr_state data =
                \<lparr>st_vote = None, st_last = Some (2, 7), st_committed = Some (1, 2),
                 st_purged = Some (1, 1), st_user_data = None\<rparr>
            \<and> (case collect_results items of
                 Ok es \<Rightarrow> map (\<lambda>(log_id, payload). dbg_pair log_id @ '': '' @ payload) es =
                   [''(2, 2): world'', ''(2, 3): foo'', ''(2, 4): world'', ''(2, 5): foo'',
                    ''(2, 6): bar'', ''(2, 7): wow'']
               | _ \<Rightarrow> False)
            \<and> dr_hit (it_data it) = 4 \<and> dr_miss (it_data it) = 2)
      | _ \<Rightarrow> False)"

lemma test_dump_data_passes: "test_dump_data"
  by (simp add: test_dump_data_def build_sample_data_def blocking_flush_def persist_closed_def run_simps
      dump_data_def dump_iter_new_def dump_collect.simps dump_next_def read_log_payload_def Let_def
      dbg_pair_def show_u64_def dec_string.simps digit_char_def
      cong: sbind_first let_weak_cong)

section \<open>The texts\<close>

lemma sum_codec_length: "length (sum_codec bs) = 8"
  by (simp add: sum_codec_def)

lemma action_size:
  assumes "\<And>w. \<exists>w'. encode_payload test_codecs a w = (Ok n, w')"
  shows "record_size (Action a) = 12 + n"
proof -
  obtain w' where "encode_payload test_codecs a (be_bytes 4 (unat (record_type a))) = (Ok n, w')"
    using assms by blast
  then show ?thesis by (simp add: record_size.simps encode_action_runs enc_test_ids(1) Let_def)
qed

lemma record_sizes [simp]:
  "record_size (Action (Append l p)) = 32 + length p"
  "record_size (Action (Commit l)) = 28"
  "record_size (Action (TruncateAfter (Some l))) = 29"
  "record_size (Action (PurgeUpto l)) = 28"
proof -
  obtain x y where l: "l = (x, y)" by fastforce
  show "record_size (Action (Append l p)) = 32 + length p"
    by (subst action_size [of _ "20 + length p"]) (simp_all add: l test_codecs_def enc_test_ids)
  show "record_size (Action (Commit l)) = 28"
    by (subst action_size [of _ 16]) (simp_all add: l test_codecs_def enc_test_ids)
  show "record_size (Action (TruncateAfter (Some l))) = 29"
    by (subst action_size [of _ 17]) (simp_all add: l test_codecs_def enc_test_parts)
  show "record_size (Action (PurgeUpto l)) = 28"
    by (subst action_size [of _ 16]) (simp_all add: l test_codecs_def enc_test_ids)
qed

declare record_size.simps [simp del]

fun option_size :: "nat \<Rightarrow> 'a option \<Rightarrow> nat" where
  "option_size n None = 1"
| "option_size n (Some a) = 1 + n"

lemma option_id_size:
  "\<exists>bs. \<forall>w. enc (option_codec (pair_codec u64_codec u64_codec)) ol w = (Ok (option_size 16 ol), w @ bs)"
  by (cases ol) (auto simp: option_codec_def enc_test_ids u8_codec_def fixed_codec_def)

lemma checkpoint_size:
  assumes "st_user_data st = None"
  shows "record_size (Checkpoint st) =
    14 + option_size 16 (st_vote st) + option_size 16 (st_last st)
    + option_size 16 (st_committed st) + option_size 16 (st_purged st)"
proof -
  obtain f where f: "\<And>ol w. enc (option_codec (pair_codec u64_codec u64_codec)) ol w
      = (Ok (option_size 16 ol), w @ f ol)"
    using option_id_size by metis
  show ?thesis using assms
    by (simp add: record_size.simps encode_state_def test_codecs_def f enc_test_parts(1))
      (simp add: option_codec_def u8_codec_def fixed_codec_def)
qed

text \<open>The store that the sample data leaves behind: three closed chunks of five records, and an open one.\<close>

definition sample_chunks :: "(nat \<times> test_record list) list" where
  "sample_chunks =
     [(0, [Checkpoint default_state, Action (Append (1, 0) ''hi''), Action (Append (1, 1) ''hello''),
           Action (Append (1, 2) ''world''), Action (Append (1, 3) ''foo'')]),
      (5, [Checkpoint (default_state\<lparr>st_last := Some (1, 3)\<rparr>), Action (TruncateAfter (Some (1, 1))),
           Action (Append (2, 2) ''world''), Action (Append (2, 3) ''foo''), Action (Commit (1, 2))]),
      (10, [Checkpoint (default_state\<lparr>st_last := Some (2, 3), st_committed := Some (1, 2)\<rparr>),
            Action (PurgeUpto (1, 1)), Action (Append (2, 4) ''world''),
            Action (Append (2, 5) ''foo''), Action (Append (2, 6) ''bar'')])]"

definition sample_open :: "test_record list" where
  "sample_open =
     [Checkpoint (default_state\<lparr>st_last := Some (2, 6), st_committed := Some (1, 2),
                                st_purged := Some (1, 1)\<rparr>),
      Action (Append (2, 7) ''wow'')]"

definition sample_store :: test_store where
  "sample_store =
     \<lparr>rl_config = test_config (Some 3) None,
      rl_wal = \<lparr>mw_max = 5,
        mw_closed =
          [(0, default_state\<lparr>st_last := Some (1, 3)\<rparr>),
           (5, default_state\<lparr>st_last := Some (2, 3), st_committed := Some (1, 2)\<rparr>),
           (10, default_state\<lparr>st_last := Some (2, 6), st_committed := Some (1, 2),
                             st_purged := Some (1, 1)\<rparr>)],
        mw_files = sample_chunks, mw_open_id = 15, mw_open = sample_open, mw_fail = False,
        mw_history =
          concat (map (\<lambda>(c, rs). map (\<lambda>(g, rec). (rec, c, g)) (enumerate 0 rs))
            (sample_chunks @ [(15, sample_open)]))\<rparr>,
      rl_sm = \<lparr>
        sm_log = map (\<lambda>(id, c, g). (snd id, \<lparr>ld_log_id = id, ld_chunk_id = c, ld_segment = g\<rparr>))
          [((2, 2), 5, 2), ((2, 3), 5, 3), ((2, 4), 10, 2), ((2, 5), 10, 3), ((2, 6), 10, 4),
           ((2, 7), 15, 1)],
        sm_cache = \<lparr>pc_max_items = 3, pc_capacity = 1073741824, pc_size = 14,
          pc_cache = [((2, 4), ''world''), ((2, 5), ''foo''), ((2, 6), ''bar''), ((2, 7), ''wow'')],
          pc_last_evictable = Some (2, 6)\<rparr>,
        sm_state = \<lparr>st_vote = None, st_last = Some (2, 7), st_committed = Some (1, 2),
                    st_purged = Some (1, 1), st_user_data = None\<rparr>\<rparr>,
      rl_removed = [], rl_access = \<lparr>cache_hit = 0, cache_miss = 0\<rparr>\<rparr>"

lemmas sample_runs = sample_store_def sample_chunks_def sample_open_def

lemma sample_built:
  "build_sample_data persist_closed (test_store 5 (Some 3) None) = (Ok sample_dumped, sample_store)"
  by (simp add: sample_runs build_sample_data_def blocking_flush_def persist_closed_def run_simps
      cong: sbind_first let_weak_cong)

lemma sample_items:
  "byte_items (rl_wal sample_store) =
     [(0, 0, Ok ((0, 18), Checkpoint default_state)),
      (0, 1, Ok ((18, 34), Action (Append (1, 0) ''hi''))),
      (0, 2, Ok ((52, 37), Action (Append (1, 1) ''hello''))),
      (0, 3, Ok ((89, 37), Action (Append (1, 2) ''world''))),
      (0, 4, Ok ((126, 35), Action (Append (1, 3) ''foo''))),
      (161, 0, Ok ((0, 34), Checkpoint (default_state\<lparr>st_last := Some (1, 3)\<rparr>))),
      (161, 1, Ok ((34, 29), Action (TruncateAfter (Some (1, 1))))),
      (161, 2, Ok ((63, 37), Action (Append (2, 2) ''world''))),
      (161, 3, Ok ((100, 35), Action (Append (2, 3) ''foo''))),
      (161, 4, Ok ((135, 28), Action (Commit (1, 2)))),
      (324, 0, Ok ((0, 50), Checkpoint (default_state\<lparr>st_last := Some (2, 3), st_committed := Some (1, 2)\<rparr>))),
      (324, 1, Ok ((50, 28), Action (PurgeUpto (1, 1)))),
      (324, 2, Ok ((78, 37), Action (Append (2, 4) ''world''))),
      (324, 3, Ok ((115, 35), Action (Append (2, 5) ''foo''))),
      (324, 4, Ok ((150, 35), Action (Append (2, 6) ''bar''))),
      (509, 0, Ok ((0, 66), Checkpoint (default_state\<lparr>st_last := Some (2, 6), st_committed := Some (1, 2),
         st_purged := Some (1, 1)\<rparr>))),
      (509, 1, Ok ((66, 35), Action (Append (2, 7) ''wow'')))]"
  by (simp add: byte_items_def bytes_before_def sample_runs checkpoint_size default_state_def)

lemma dump_text_items:
  "dump_text s = Ok (''RaftLog:'' @ nl @ concat (map (record_line bytes_text) (byte_items (rl_wal s))))"
proof -
  have "list_all (\<lambda>i. snd (snd i) \<noteq> Panic) (byte_items w)" for w
    by (auto simp: byte_items_def list_all_iff)
  from feed_records [OF this] show ?thesis
    by (simp add: dump_text_def write_to_string_def dump_write_def put_string_def
        ref_dump_write_with_def rl_dump_def)
qed

lemma record_line_bytes:
  "record_line bytes_text (c, i, Ok ((off, n), rec)) =
     (if off = 0 then ''ChunkId('' @ format_grouped c 20 @ '')'' @ nl else [])
     @ ''  R-'' @ pad_dec 5 (unat i) @ '': ['' @ format_pad9_u64 off @ '', '' @ format_pad9_u64 (off + n)
     @ '') Size('' @ dec_string (unat n) @ ''): '' @ dbg_test_record rec @ nl"
  by (simp add: record_line_def write_record_debug_def write_ok_def put_string_def bytes_text_def
      show_u64_def)

lemma dbg_option_simps:
  "dbg_option f None = ''None''" "dbg_option f (Some x) = ''Some('' @ f x @ '')''"
  by (simp_all add: dbg_option_def)

lemmas line_simps =
  record_line_bytes format_pad9_u64_def format_grouped_group3 pad_dec_def dec_string.simps
  digit_char_def replicate_numeral show_u64_def Let_def dbg_option_simps dbg_state_def default_state_def
  quoted_def dbg_pair_def

lemma sample_dump: "dump_text sample_store = Ok sample_dumped"
  by (simp add: dump_text_items sample_items line_simps sample_dumped_def text_lines_def)

lemma sample_purged:
  "\<exists>s. sbind (rl_purge test_types test_api (2, 3) sample_store)
        (\<lambda>_. blocking_flush test_api () persist_closed) = (Ok (), s)
     \<and> mw_history (rl_wal s) = mw_history (rl_wal sample_store) @ [(Action (PurgeUpto (2, 3)), 15, 2)]
     \<and> map fst (mw_closed (rl_wal s)) = [10] \<and> mw_open_id (rl_wal s) = 15"
  by (simp add: sample_runs blocking_flush_def persist_closed_def run_simps
      cong: sbind_first let_weak_cong)

lemma purged_items:
  assumes "mw_history w = mw_history (rl_wal sample_store) @ [(Action (PurgeUpto (2, 3)), 15, 2)]"
    and "map fst (mw_closed w) = [10]" and "mw_open_id w = 15"
  shows "byte_items w =
     drop 10 (byte_items (rl_wal sample_store)) @ [(509, 2, Ok ((101, 28), Action (PurgeUpto (2, 3))))]"
  unfolding sample_items
  by (simp add: byte_items_def bytes_before_def assms(1,3) sample_runs checkpoint_size
      default_state_def assms(2) del: set_map list.set_map)

lemma purged_dump:
  assumes "mw_history (rl_wal s) = mw_history (rl_wal sample_store) @ [(Action (PurgeUpto (2, 3)), 15, 2)]"
    and "map fst (mw_closed (rl_wal s)) = [10]" and "mw_open_id (rl_wal s) = 15"
  shows "dump_text s = Ok purged_dumped"
  by (simp add: dump_text_items purged_items [OF assms] sample_items line_simps purged_dumped_def
      text_lines_def)

lemma sample_purge_dump:
  assumes "wal_wait_idle S = (\<lambda>_. Ok ())"
  shows "fst (build_sample_data_purge_upto_3 S persist_closed (test_store 5 (Some 3) None)) = Ok purged_dumped"
proof -
  obtain s where s: "sbind (rl_purge test_types test_api (2, 3) sample_store)
      (\<lambda>_. blocking_flush test_api () persist_closed) = (Ok (), s)"
    and wal: "mw_history (rl_wal s) = mw_history (rl_wal sample_store) @ [(Action (PurgeUpto (2, 3)), 15, 2)]"
    "map fst (mw_closed (rl_wal s)) = [10]" "mw_open_id (rl_wal s) = 15"
    by (rule exE [OF sample_purged]) (elim conjE, rule that)
  have "dump_text s = Ok purged_dumped"
    using wal by (rule purged_dump)
  moreover obtain n s1 where "rl_purge test_types test_api (2, 3) sample_store = (Ok n, s1)"
    "blocking_flush test_api () persist_closed s1 = (Ok (), s)"
    using s [unfolded sbind_Ok_iff] by auto
  ultimately show ?thesis using assms
    by (simp add: build_sample_data_purge_upto_3_def sample_built wait_worker_idle_def)
qed

end
