(* ===== verification/Unit_Tests.thy ===== *)
theory Unit_Tests imports Sample_Dump
begin

text \<open>
  The unit tests that the source files carry in their \<open>mod tests\<close>, replayed on the model: each
  test is the conjunction of its assertions, in the order of the code, and holds. The tests of
  \<open>raft_log_record.rs\<close> and \<open>num.rs\<close> are with the codecs and the number format, the one of
  \<open>dump_raft_log.rs\<close> is with the sample data.
\<close>

section \<open>Payload cache\<close>

abbreviation put_payload :: "test_id \<Rightarrow> string \<Rightarrow> (test_id, string) payload_cache
    \<Rightarrow> (test_id, string) payload_cache" where
  "put_payload \<equiv> cache_insert test_types"

definition test_cache :: bool where
  "test_cache =
     (let cache = set_last_evictable (cache_new 2 10) (Some (1, 10));
          cache = put_payload (1, 1) ''foo'' cache;
          cache = put_payload (1, 2) ''bar'' cache
      in item_count cache = 2 \<and> pc_size cache = 6
       \<and> cache_get cache (1, 1) = Some ''foo'' \<and> cache_get cache (1, 2) = Some ''bar''
       \<and> (let cache = put_payload (1, 3) ''baz'' cache
          in item_count cache = 2 \<and> pc_size cache = 6
           \<and> cache_get cache (1, 1) = None \<and> cache_get cache (1, 2) = Some ''bar''
           \<and> cache_get cache (1, 3) = Some ''baz''
           \<and> (let cache = put_payload (1, 4) ''12345678'' cache
              in item_count cache = 1 \<and> pc_size cache = 8
               \<and> cache_get cache (1, 2) = None \<and> cache_get cache (1, 3) = None
               \<and> cache_get cache (1, 4) = Some ''12345678''
               \<and> (let cache = put_payload (1, 5) ''123456789ab'' cache
                  in item_count cache = 0 \<and> pc_size cache = 0
                   \<and> cache_get cache (1, 2) = None \<and> cache_get cache (1, 3) = None
                   \<and> cache_get cache (1, 4) = None \<and> cache_get cache (1, 5) = None))))"

definition test_last_evictable :: bool where
  "test_last_evictable =
     (let cache = set_last_evictable (cache_new 2 10) (Some (1, 2));
          cache = put_payload (1, 1) ''foo'' cache;
          cache = put_payload (1, 2) ''bar'' cache;
          cache = put_payload (1, 3) ''baz'' cache;
          cache = put_payload (1, 4) ''12345678'' cache
      in item_count cache = 2 \<and> pc_size cache = 11
       \<and> cache_get cache (1, 1) = None \<and> cache_get cache (1, 2) = None
       \<and> cache_get cache (1, 3) = Some ''baz'' \<and> cache_get cache (1, 4) = Some ''12345678''
       \<and> (let cache = put_payload (1, 5) ''123456789ab'' cache
          in item_count cache = 3 \<and> pc_size cache = 22
           \<and> cache_get cache (1, 1) = None \<and> cache_get cache (1, 2) = None
           \<and> cache_get cache (1, 3) = Some ''baz'' \<and> cache_get cache (1, 4) = Some ''12345678''
           \<and> cache_get cache (1, 5) = Some ''123456789ab''))"

text \<open>The cache that two tests start from.\<close>

definition five_payloads :: "(test_id, string) payload_cache" where
  "five_payloads =
     (let cache = cache_new 10 100;
          cache = put_payload (1, 1) ''foo'' cache;
          cache = put_payload (1, 2) ''bar'' cache;
          cache = put_payload (2, 3) ''baz'' cache;
          cache = put_payload (2, 4) ''12345678'' cache
      in put_payload (2, 5) ''123456789ab'' cache)"

definition test_truncate_after :: bool where
  "test_truncate_after =
     (let cache = cache_truncate_after test_types (1, 3) five_payloads
      in item_count cache = 2 \<and> pc_size cache = 6
       \<and> cache_get cache (1, 1) = Some ''foo'' \<and> cache_get cache (1, 2) = Some ''bar''
       \<and> cache_get cache (2, 3) = None \<and> cache_get cache (2, 4) = None
       \<and> cache_get cache (2, 5) = None
       \<and> (let cache = cache_truncate_after test_types (1, 2) cache
          in item_count cache = 2 \<and> pc_size cache = 6
           \<and> cache_get cache (1, 1) = Some ''foo'' \<and> cache_get cache (1, 2) = Some ''bar''
           \<and> (let cache = cache_truncate_after test_types (2, 3) cache
              in item_count cache = 2 \<and> pc_size cache = 6
               \<and> cache_get cache (1, 1) = Some ''foo'' \<and> cache_get cache (1, 2) = Some ''bar''
               \<and> (let cache = cache_truncate_after test_types (1, 1) cache
                  in item_count cache = 1 \<and> pc_size cache = 3
                   \<and> cache_get cache (1, 1) = Some ''foo'' \<and> cache_get cache (1, 2) = None
                   \<and> (let cache = cache_truncate_after test_types (1, 0) cache
                      in item_count cache = 0 \<and> pc_size cache = 0
                       \<and> cache_get cache (1, 1) = None \<and> cache_get cache (1, 2) = None)))))"

definition test_purge_upto :: bool where
  "test_purge_upto =
     (item_count five_payloads = 5 \<and> pc_size five_payloads = 28
       \<and> (let cache = cache_purge_upto test_types (1, 2) five_payloads
          in item_count cache = 5
           \<and> (let cache = set_last_evictable cache (Some (1, 2));
                  cache = cache_purge_upto test_types (1, 2) cache
              in item_count cache = 3 \<and> pc_size cache = 22
               \<and> cache_get cache (1, 1) = None \<and> cache_get cache (1, 2) = None
               \<and> cache_get cache (2, 3) = Some ''baz'' \<and> cache_get cache (2, 4) = Some ''12345678''
               \<and> cache_get cache (2, 5) = Some ''123456789ab''
               \<and> (let cache = cache_purge_upto test_types (2, 3) cache
                  in item_count cache = 3
                   \<and> (let cache = set_last_evictable cache (Some (2, 3));
                          cache = cache_purge_upto test_types (2, 3) cache
                      in item_count cache = 2 \<and> pc_size cache = 19
                       \<and> cache_get cache (2, 3) = None
                       \<and> cache_get cache (2, 4) = Some ''12345678''
                       \<and> cache_get cache (2, 5) = Some ''123456789ab''
                       \<and> (let cache = set_last_evictable cache (Some (2, 4));
                              cache = cache_purge_upto test_types (2, 4) cache
                          in item_count cache = 1 \<and> pc_size cache = 11
                           \<and> cache_get cache (2, 4) = None
                           \<and> cache_get cache (2, 5) = Some ''123456789ab''
                           \<and> (let cache = set_last_evictable cache (Some (3, 0));
                                  cache = cache_purge_upto test_types (3, 0) cache
                              in item_count cache = 0 \<and> pc_size cache = 0
                               \<and> cache_get cache (2, 5) = None)))))))"

lemmas cache_test_runs = item_count_def test_types_def run_simps

lemma test_cache_passes: "test_cache"
  by code_simp

lemma test_last_evictable_passes: "test_last_evictable"
  by (simp add: test_last_evictable_def cache_test_runs Let_def cong: let_weak_cong)

lemma five_payloads_run:
  "five_payloads =
     \<lparr>pc_max_items = 10, pc_capacity = 100, pc_size = 28,
      pc_cache = [((1, 1), ''foo''), ((1, 2), ''bar''), ((2, 3), ''baz''), ((2, 4), ''12345678''),
                  ((2, 5), ''123456789ab'')], pc_last_evictable = None\<rparr>"
  by (simp add: five_payloads_def cache_test_runs Let_def cong: let_weak_cong)

lemma test_truncate_after_passes: "test_truncate_after"
  by (simp add: test_truncate_after_def five_payloads_run cache_test_runs Let_def cong: let_weak_cong)

lemma test_purge_upto_passes: "test_purge_upto"
  by (simp add: test_purge_upto_def five_payloads_run cache_test_runs Let_def cong: let_weak_cong)

section \<open>State machine and configuration\<close>

definition test_checkpoint_returns_current_log_state :: bool where
  "test_checkpoint_returns_current_log_state =
     (let sm = sm_new \<lparr>cfg_wal = (), cfg_log_cache_max_items = None, cfg_log_cache_capacity = None\<rparr>
            :: (test_id, string, u64 \<times> u64, string, u64, u64 \<times> u64) state_machine;
          segment = (0, 0)
      in case sm_replay test_types sm
            [(Action (SaveVote (2, 1)), 0, segment), (Action (Append (3, 7) ''payload''), 0, segment),
             (Action (Commit (3, 7)), 0, segment)] of
           (Ok _, sm) \<Rightarrow>
             sm_checkpoint sm =
               \<lparr>st_vote = Some (2, 1), st_last = Some (3, 7), st_committed = Some (3, 7),
                st_purged = None, st_user_data = None\<rparr>
         | _ \<Rightarrow> False)"

lemma test_checkpoint_passes: "test_checkpoint_returns_current_log_state"
  by (simp add: test_checkpoint_returns_current_log_state_def run_simps Let_def cong: let_weak_cong)

text \<open>The fields of \<open>chunked_wal::Config\<close> that the test sets and looks at.\<close>

record wal_config =
  wc_dir :: string
  wc_read_buffer_size :: "usize option"
  wc_chunk_max_records :: "usize option"
  wc_chunk_max_size :: "usize option"
  wc_truncate_incomplete_record :: "bool option"
  wc_flush_batch_wait :: "nat option"
  wc_flush_batch_max_items :: "usize option"
  wc_flush_queue_max_bytes :: "usize option"

definition test_explicit_config_embeds_wal_config :: bool where
  "test_explicit_config_embeds_wal_config =
     (let config =
        \<lparr>cfg_wal = \<lparr>wc_dir = ''raft-log-dir'', wc_read_buffer_size = Some 13,
           wc_chunk_max_records = Some 17, wc_chunk_max_size = Some 19,
           wc_truncate_incomplete_record = None, wc_flush_batch_wait = None,
           wc_flush_batch_max_items = None, wc_flush_queue_max_bytes = None\<rparr>,
         cfg_log_cache_max_items = Some 7, cfg_log_cache_capacity = Some 11\<rparr>
      in wc_dir (cfg_wal config) = ''raft-log-dir''
       \<and> wc_read_buffer_size (cfg_wal config) = Some 13
       \<and> wc_chunk_max_records (cfg_wal config) = Some 17
       \<and> wc_chunk_max_size (cfg_wal config) = Some 19
       \<and> wc_truncate_incomplete_record (cfg_wal config) = None
       \<and> wc_flush_batch_wait (cfg_wal config) = None
       \<and> wc_flush_batch_max_items (cfg_wal config) = None
       \<and> wc_flush_queue_max_bytes (cfg_wal config) = None
       \<and> log_cache_max_items config = 7 \<and> log_cache_capacity config = 11)"

lemma test_explicit_config_passes: "test_explicit_config_embeds_wal_config"
  by (simp add: test_explicit_config_embeds_wal_config_def log_cache_max_items_def
      log_cache_capacity_def)

section \<open>Text\<close>

text \<open>
  \<open>TestDisplayTypes\<close>: ids and votes are numbers. Their records print with the derived \<open>Debug\<close>
  of an action or with its \<open>Display\<close>; an absent option prints as \<open>None\<close>.
\<close>

type_synonym display_action = "(u64, string, u64) raft_action"
type_synonym display_record = "(u64, string, u64, string) raft_record"

definition test_display_types :: "(u64, string, u64) raft_types" where
  "test_display_types =
     \<lparr>log_index = (\<lambda>i. i), payload_size = (\<lambda>p. of_nat (length p)),
      dbg_log_id = show_u64, dbg_vote = show_u64\<rparr>"

definition show_display_state :: "(u64, u64, string) raft_log_state \<Rightarrow> string" where
  "show_display_state =
     show_state (show_option show_u64) (show_option show_u64) (show_option (\<lambda>u. u))"

fun show_display_record :: "display_record \<Rightarrow> string" where
  "show_display_record (Action a) =
     show_action show_u64 show_u64 (\<lambda>p. p) (show_option show_u64) a"
| "show_display_record (Checkpoint st) = ''Checkpoint('' @ show_display_state st @ '')''"

fun dbg_display_record :: "display_record \<Rightarrow> string" where
  "dbg_display_record (Action a) = dbg_action test_display_types quoted a"
| "dbg_display_record (Checkpoint st) = ''State('' @ show_display_state st @ '')''"

definition display_text :: "(u64, u64 \<times> u64, display_record) text_api" where
  "display_text =
     \<lparr>show_chunk_id = (\<lambda>c. ''ChunkId('' @ format_grouped c 20 @ '')''), seg_offset = fst,
      seg_end = (\<lambda>g. fst g + snd g), show_seg_size = (\<lambda>g. ''Size('' @ show_u64 (snd g) @ '')''),
      dbg_record = dbg_display_record, show_record = show_display_record,
      show_io_error = err_msg\<rparr>"

definition test_state_of_display_types :: "(u64, u64, string) raft_log_state" where
  "test_state_of_display_types =
     \<lparr>st_vote = Some 1, st_last = Some 2, st_committed = Some 4, st_purged = Some 6,
      st_user_data = Some ''hello''\<rparr>"

definition test_raft_log_state_display :: bool where
  "test_raft_log_state_display \<longleftrightarrow>
     show_display_state test_state_of_display_types =
       ''RaftLogState(vote: 1, last: 2, committed: 4, purged: 6, user_data: hello)''"

definition test_wal_record_display :: bool where
  "test_wal_record_display =
     (let records =
        [Action (SaveVote 1), Action (Append 3 ''hello''), Action (Commit 5),
         Action (TruncateAfter (Some 7)), Action (PurgeUpto 9),
         Checkpoint \<lparr>st_vote = Some 1, st_last = Some 3, st_committed = Some 4,
                     st_purged = Some 6, st_user_data = Some ''hello''\<rparr>]
      in CHR ''['' # join_with '','' (map show_display_record records) @ '']'' =
         ''[SaveVote(1),Append(log_id: 3, payload: hello),Commit(5),TruncateAfter(7),PurgeUpto(9),''
         @ ''Checkpoint(RaftLogState(vote: 1, last: 3, committed: 4, purged: 6, user_data: hello))]'')"

fun contains :: "string \<Rightarrow> string \<Rightarrow> bool" where
  "contains pat [] \<longleftrightarrow> pat = []"
| "contains pat (c # s) \<longleftrightarrow> take (length pat) (c # s) = pat \<or> contains pat s"

definition make_input :: "((u64 \<times> u64) \<times> display_record, io_error) outcome" where
  "make_input = Ok ((0, 10), Action (Append 3 ''hello''))"

definition test_write_record_debug_vs_display :: bool where
  "test_write_record_debug_vs_display =
     (case (write_record_debug display_text put_string 0 0 make_input [],
            write_record_display display_text put_string 0 0 make_input []) of
        ((Ok _, debug_out), (Ok _, display_out)) \<Rightarrow>
          contains (''Append(3, '' @ quoted ''hello'' @ '')'') debug_out
          \<and> contains ''Append(log_id: 3, payload: hello)'' display_out
      | _ \<Rightarrow> False)"

text \<open>\<open>MockDump\<close> of \<open>dump_api.rs\<close> hands one record to the function it is given.\<close>

definition mock_write_with ::
  "u64 \<times> u64 \<Rightarrow> display_record \<Rightarrow> (u64, u64 \<times> u64, display_record, 'o) write_with" where
  "mock_write_with seg rec write_record w = sbind (write_record 0 0 (Ok (seg, rec)) w) (\<lambda>_ w. (Ok (), w))"

definition mock_head :: string where
  "mock_head = ''RaftLog:'' @ nl @ ''ChunkId(00_000_000_000_000_000_000)'' @ nl
     @ ''  R-00000: [000_000_000, 000_000_010) Size(10): ''"

definition test_write_to_string :: bool where
  "test_write_to_string \<longleftrightarrow>
     write_to_string display_text (mock_write_with (0, 10) (Action (SaveVote 1)))
       = Ok (mock_head @ ''SaveVote(1)'' @ nl)"

definition test_write_uses_debug_format :: bool where
  "test_write_uses_debug_format \<longleftrightarrow>
     dump_write display_text put_string (mock_write_with (0, 10) (Action (Append 3 ''hello''))) []
       = (Ok (), mock_head @ ''Append(3, '' @ quoted ''hello'' @ '')'' @ nl)"

definition test_write_display_uses_display_format :: bool where
  "test_write_display_uses_display_format \<longleftrightarrow>
     dump_write_display display_text put_string (mock_write_with (0, 10) (Action (Append 3 ''hello''))) []
       = (Ok (), mock_head @ ''Append(log_id: 3, payload: hello)'' @ nl)"

definition test_write_with_custom_writer :: bool where
  "test_write_with_custom_writer \<longleftrightarrow>
     mock_write_with (0, 10) (Action (Commit 5))
       (\<lambda>chunk_id index res w. case res of
          Ok (_, rec) \<Rightarrow> put_string
            (''custom: '' @ show_u64 chunk_id @ '' '' @ show_u64 index @ '' '' @ dbg_display_record rec @ nl) w
        | _ \<Rightarrow> (Ok (), w)) []
     = (Ok (), ''custom: 0 0 Commit(5)'' @ nl)"

lemma test_raft_log_state_display_passes: "test_raft_log_state_display" by code_simp
lemma test_wal_record_display_passes: "test_wal_record_display" by code_simp
lemma test_write_record_passes: "test_write_record_debug_vs_display" by code_simp
lemma test_write_to_string_passes: "test_write_to_string" by code_simp
lemma test_write_uses_debug_passes: "test_write_uses_debug_format" by code_simp
lemma test_write_display_passes: "test_write_display_uses_display_format" by code_simp
lemma test_write_with_passes: "test_write_with_custom_writer" by code_simp

section \<open>Bytes\<close>

definition state_vector :: bytes where
  "state_vector =
     [1, 1, 0,0,0,0,0,0,0,1, 0,0,0,0,0,0,0,2, 1, 0,0,0,0,0,0,0,2, 0,0,0,0,0,0,0,3,
      1, 0,0,0,0,0,0,0,4, 0,0,0,0,0,0,0,5, 1, 0,0,0,0,0,0,0,6, 0,0,0,0,0,0,0,7,
      1, 0,0,0,5, 104, 101, 108, 108, 111]"

definition test_codec_without_corruption :: "'a codec \<Rightarrow> bytes \<Rightarrow> 'a \<Rightarrow> (unit, io_error) outcome" where
  "test_codec_without_corruption c encoded_bytes v =
     (let (encoded, b) = enc c v []
      in and_then encoded (\<lambda>n.
         and_then (if n = length b \<and> b = encoded_bytes then Ok () else Panic) (\<lambda>_.
         and_then (fst (dec c encoded_bytes)) (\<lambda>decoded.
           if v = decoded then Ok () else Panic))))"

definition test_raft_log_state_codec :: bool where
  "test_raft_log_state_codec \<longleftrightarrow>
     test_codec_without_corruption \<lparr>enc = encode_state test_codecs, dec = decode_state test_codecs\<rparr>
       state_vector sample_state = Ok ()"

definition test_decode_action_does_not_consume_next_record :: bool where
  "test_decode_action_does_not_consume_next_record =
     (let record_1 = TruncateAfter None; record_2 = Commit (3, 4);
          (_, b) = encode_action test_codecs record_1 [];
          (_, b) = encode_action test_codecs record_2 b;
          (decoded_1, r) = decode_action test_codecs b;
          (decoded_2, r) = decode_action test_codecs r
      in decoded_1 = Ok record_1 \<and> decoded_2 = Ok record_2 \<and> r = [])"

lemma test_state_codec_passes: "test_raft_log_state_codec"
proof -
  have "lawful_for \<lparr>enc = encode_state test_codecs, dec = decode_state test_codecs\<rparr> sample_state"
    by (rule test_cd.state_lawful) (simp_all add: sample_state_def)
  then obtain cs where "\<And>w. encode_state test_codecs sample_state w = (Ok (length cs), w @ cs)"
    "\<And>r. decode_state test_codecs (cs @ r) = (Ok sample_state, r)" by (elim lawful_forE) simp
  from this(1) [of "[]"] this(2) [of "[]"] state_test_vector show ?thesis
    by (simp add: test_raft_log_state_codec_def test_codec_without_corruption_def state_vector_def)
qed

lemma test_decode_action_passes: "test_decode_action_does_not_consume_next_record"
proof -
  have "\<exists>cs. (\<forall>w. encode_action test_codecs a w = (Ok (length cs), w @ cs))
      \<and> (\<forall>r. decode_action test_codecs (cs @ r) = (Ok a, r))" if "set2_raft_action a = {}" for a
  proof -
    have "lawful_for \<lparr>enc = encode_action test_codecs, dec = decode_action test_codecs\<rparr> a"
      using that by (intro test_cd.action_cd.lawful) auto
    then show ?thesis by (elim lawful_forE) auto
  qed
  from this [of "TruncateAfter None"] this [of "Commit (3, 4)"] obtain c1 c2 where
    "\<And>w. encode_action test_codecs (TruncateAfter None) w = (Ok (length c1), w @ c1)"
    "\<And>r. decode_action test_codecs (c1 @ r) = (Ok (TruncateAfter None), r)"
    "\<And>w. encode_action test_codecs (Commit (3, 4)) w = (Ok (length c2), w @ c2)"
    "\<And>r. decode_action test_codecs (c2 @ r) = (Ok (Commit (3, 4)), r)" by auto
  from this(1-3) this(4) [of "[]"] show ?thesis
    by (simp add: test_decode_action_does_not_consume_next_record_def)
qed

section \<open>All of them\<close>

text \<open>The model passes the unit tests of the source files: those of the payload cache, of
  the state machine, of the configuration, of the binary format, of the texts of records and
  dumps, and of the snapshot of a store that holds the sample data. The sample data has the
  dumps that \<open>sample_data.rs\<close> expects, before and after its purge.\<close>

theorem unit_tests_pass:
  "test_cache \<and> test_last_evictable \<and> test_truncate_after \<and> test_purge_upto
   \<and> test_checkpoint_returns_current_log_state \<and> test_explicit_config_embeds_wal_config
   \<and> test_raft_log_state_codec \<and> test_decode_action_does_not_consume_next_record
   \<and> test_raft_log_state_display \<and> test_wal_record_display
   \<and> test_write_record_debug_vs_display \<and> test_write_to_string
   \<and> test_write_uses_debug_format \<and> test_write_display_uses_display_format
   \<and> test_write_with_custom_writer \<and> test_dump_data
   \<and> build_sample_data persist_closed (test_store 5 (Some 3) None) = (Ok sample_dumped, sample_store)
   \<and> dump_text sample_store = Ok sample_dumped
   \<and> fst (build_sample_data_purge_upto_3 no_stats persist_closed (test_store 5 (Some 3) None))
      = Ok purged_dumped"
  by (intro conjI test_cache_passes test_last_evictable_passes test_truncate_after_passes
      test_purge_upto_passes test_checkpoint_passes test_explicit_config_passes
      test_state_codec_passes test_decode_action_passes test_raft_log_state_display_passes
      test_wal_record_display_passes test_write_record_passes test_write_to_string_passes
      test_write_uses_debug_passes test_write_display_passes test_write_with_passes
      test_dump_data_passes sample_built sample_dump sample_purge_dump) (simp add: no_stats_def)

end
