(* ===== verification/Spec2Isabelle.thy ===== *)
theory Spec2Isabelle
  imports Store_Properties State_Properties Cache_Properties Machine_Properties Num_Format
    Codec_Properties Dump_Properties Recovery Spec_Properties Concurrent_Read Bench_Report Unit_Tests
begin

text \<open>
  A verification of \<open>raft-log\<close>, the storage of a Raft node: a write-ahead log (WAL) of typed
  records, a state machine that replays them into the Raft log state and an index of the log
  entries, and a cache of payloads.

  \<^bold>\<open>The program and its model.\<close> A write (\<open>src/raft_log/raft_log.rs\<close>, \<open>append_and_apply\<close>) is
  checked against the state machine, appended to the WAL, applied to the state machine
  together with its place in the WAL, and may close the open chunk of the WAL. A purge sets
  closed chunks aside that hold only purged entries, and a synced flush hands them to the
  flush worker for removal. A read takes ids from the index and payloads from the cache or
  from the WAL. The theories follow these parts, in the order in which the code has them:

  \<^item> \<open>RL_Prelude\<close>: machine integers, results with panics, runs of a step function (locale
    \<open>progress_machine\<close>), decimal printing. \<open>Ordered_Map\<close>: \<open>BTreeMap\<close> behind the locale
    \<open>ordered_map\<close>.
  \<^item> \<open>Raft_Types\<close> (\<open>src/api/types.rs\<close>): the \<open>Types\<close> trait as a dictionary record.
    \<open>Raft_Errors\<close> (\<open>src/errors.rs\<close>): the rejections, with their messages.
    \<open>Raft_Config\<close> (\<open>src/config.rs\<close>).
  \<^item> \<open>Raft_State\<close> (\<open>raft_log_action.rs\<close>, \<open>raft_log_record.rs\<close>, \<open>raft_log_state.rs\<close>): records,
    the log state, \<open>check\<close> and \<open>apply\<close>; \<open>State_Properties\<close>.
  \<^item> \<open>Payload_Cache\<close> (\<open>state_machine/payload_cache.rs\<close>): the cache with its pop loops;
    \<open>Cache_Properties\<close>.
  \<^item> \<open>State_Machine\<close> (\<open>state_machine/mod.rs\<close>, \<open>log_data.rs\<close>): the index and the cache under
    the records of the WAL, and its invariant \<open>sm_inv\<close>; \<open>Machine_Properties\<close>.
  \<^item> \<open>Wal_Interface\<close>: the calls on \<open>chunked_wal\<close>, and the laws the store relies on (locale
    \<open>chunked_wal\<close>); \<open>Wal_Reference\<close> is a WAL in memory that satisfies them.
  \<^item> \<open>Raft_Log\<close> (\<open>raft_log.rs\<close>): the store and its operations. \<open>Raft_Store\<close>: the abstract log
    and the invariant \<open>rl_inv\<close>, kept by one write (locale \<open>raft_wal\<close>). \<open>Raft_Ops\<close>: each
    operation, and the store as a step relation. \<open>Sample_Runs\<close>: concrete stores.
    \<open>Store_Properties\<close> holds the properties of the store. \<open>Store_Steps\<close> cuts the operations
    into the single steps at which a process may stop, or another thread may look.
  \<^item> \<open>Abstract_Store\<close>: a store that is a list of entries and a log state, its operations, and
    the relation of the two over a WAL whose calls succeed (locale \<open>raft_wal_up\<close>);
    \<open>Spec_Properties\<close> has the refinement. \<open>Crash_Recovery\<close>: the records a store has written
    (locale \<open>recorded_wal\<close>), and what replaying them rebuilds; \<open>Reopen\<close>: opening on the part of
    them that a crash has left; \<open>Recovery\<close> has the properties of opening, restarting and
    recovering from a crash.
  \<^item> \<open>Concurrent_Read\<close>: the iterator of \<open>read\<close> step by step, interleaved with other readers,
    drains of the cache and the flush worker.
  \<^item> \<open>Codec\<close>: the binary format of actions and states over the codecs of their parts (locales
    \<open>codec\<close> and \<open>raft_codecs\<close>); \<open>Codec_Properties\<close>. \<open>Num_Format\<close> (\<open>src/num.rs\<close>), \<open>Dump\<close>
    (\<open>dump_raft_log.rs\<close>, \<open>dump.rs\<close>, \<open>dump_api.rs\<close>, \<open>dump_writer.rs\<close>, \<open>stat.rs\<close>) and \<open>Dump_Properties\<close>.
  \<^item> \<open>Client_Runs\<close> (\<open>api/raft_log_writer.rs\<close>, \<open>examples/basic_usage.rs\<close>): \<open>blocking_flush\<close>
    and the usage example, with the flush worker going on while they wait. \<open>Log_Writer\<close>: the
    trait \<open>RaftLogWriter\<close>, and what a client that only adds relies on (locale
    \<open>growing_writer\<close>, of which every store over a lawful WAL is an instance). \<open>Flush_Bench\<close>
    (\<open>examples/flush_batch_bench.rs\<close>): options, callbacks and the histogram; \<open>Bench_Runs\<close>: a
    case of this benchmark and the loop of \<open>bin/bench.rs\<close> on a store; \<open>Rust_Float\<close>: \<open>f64\<close> as
    the rationals that it represents, with rounding to the nearest even significand, and its
    decimal text; \<open>Bench_Report\<close>: the report of the benchmark and its \<open>main\<close>.
  \<^item> \<open>Sample_Dump\<close> (\<open>tests/sample_data.rs\<close>): the sample data and the texts that its dumps must
    have, with the byte offsets of the binary format. \<open>Unit_Tests\<close>: the tests inside the source
    files, run on the model (\<open>unit_tests_pass\<close>).

  \<^bold>\<open>Conventions.\<close> A method with \<open>&mut self\<close> is a function from a state to its result and the
  state it leaves. A result is \<open>Ok\<close>, \<open>Err\<close> or \<open>Panic\<close>. \<open>u64\<close> and \<open>usize\<close> are 64 bit words, so
  that the wrap-around of \<open>log_index + 1\<close> and of the byte counter is that of a release build;
  \<open>debug_assert!\<close> is left out for the same reason. Every loop of the code ends: those of the
  cache and of the iterators are functions with a termination proof, so no fuel is needed.

  \<^bold>\<open>Parameters.\<close> \<open>chunked_wal\<close>, \<open>codeq\<close> and the user's \<open>Types\<close> are not part of this
  repository. They are dictionaries (records of functions) that the definitions take as
  arguments. What the code relies on of them is stated in the locales \<open>chunked_wal\<close> (an
  appended record is at the last segment of the open chunk; records and readability persist;
  draining takes closed chunks from the oldest on; only chunks handed over for removal lose
  their records), \<open>recorded_wal\<close> (a write that succeeds adds its record to the history, and a
  chunk that closes adds the checkpoint of the next) and \<open>raft_codecs\<close> (encoding then decoding
  gives the value back). The reference WAL and the codecs of \<open>TestTypes\<close> with a CRC-32 checksum
  interpret them, so that no hypothesis is empty; the byte vectors of the unit tests are
  checked on these codecs.

  \<^bold>\<open>What the theorems show.\<close> For the store: every sequence of calls, failures included, keeps
  the invariant and is a run of an abstract list of entries; over a WAL that does not fail every
  result is that of the abstract store; committed entries survive; each operation's effect on
  the list; reads return it; no live entry's file is removed and every purged chunk goes;
  reopening restores it. After a crash, whatever first part of the records written since the
  last known state is left, and whether or not the chunks set aside are still there, opening
  gives a log and a state that the store had at some moment since. However a read is
  interleaved with drains, other readers and the flush worker, it returns the entries of its
  range, and it ends. For the clients: the usage example reads what it wrote, and a case of the
  benchmark leaves one entry per operation and counts each callback once; the percentiles of its
  report are in order and within the measured latencies. For the parts: the
  exact acceptance conditions and errors of the checks, the shape of the index, what the cache
  keeps and evicts, the round trips of the binary format, the text of the dump.

  The store's theorems assume of an appended entry that its index has a successor and that
  its id is above the eviction boundary (\<open>appendable\<close>), of a purge that it names an entry, a
  position past the log, or what is purged already (\<open>purgeable\<close>), and of a declared state that
  it fits the log (\<open>declarable\<close>). The counterexamples in \<open>Machine_Properties\<close>,
  \<open>Cache_Properties\<close> and \<open>Recovery\<close> show what the code does beyond these conditions.

  \<^bold>\<open>Not modelled.\<close> The integration tests; the clock, whose readings are arguments; what
  \<open>bin/bench.rs\<close> prints; log output; re-exports and module files. Files, locks, threads and the
  flush worker are \<open>chunked_wal\<close>'s; of the worker the model has its callback into the cache
  and the fact that it may run between any two calls, and between any two steps of a read.
\<close>

end
